theory Spec2Isabelle
  imports Complex_Main "HOL-Library.Sublist"
begin

section \<open>JavaScript values used by the FAQ service\<close>

text \<open>
  A JavaScript string is a sequence of UTF-16 code units; \<open>length\<close>, \<open>slice\<close>,
  \<open>split('')\<close> and \<open>charCodeAt\<close> all count code units. A string is therefore a list of
  code-unit values. ASCII literals of the source are written through \<open>lit\<close>.
  Numbers that the code uses as counts, indices, limits and ids are integers; the model
  covers integer settings, and agrees with the JavaScript Number for magnitudes up to
  \<open>2^53\<close>.
\<close>

type_synonym jsstring = "nat list"

definition lit :: "string \<Rightarrow> jsstring" where
  "lit s = map of_char s"

text \<open>
  WhiteSpace and LineTerminator code units of ECMAScript: the set that \<open>trim\<close> strips,
  that \<open>\s\<close> matches and that \<open>parseInt\<close> skips.
\<close>

definition is_ws :: "nat \<Rightarrow> bool" where
  "is_ws c \<longleftrightarrow>
     c = 9 \<or> c = 10 \<or> c = 11 \<or> c = 12 \<or> c = 13 \<or> c = 32 \<or> c = 160 \<or> c = 5760 \<or>
     (8192 \<le> c \<and> c \<le> 8202) \<or> c = 8232 \<or> c = 8233 \<or> c = 8239 \<or> c = 8287 \<or>
     c = 12288 \<or> c = 65279"

definition trim :: "jsstring \<Rightarrow> jsstring" where
  "trim s = rev (dropWhile is_ws (rev (dropWhile is_ws s)))"

text \<open>\<open>xs.slice(0, n)\<close> on a string or an array: a negative end counts from the end.\<close>

definition slice0 :: "int \<Rightarrow> 'a list \<Rightarrow> 'a list" where
  "slice0 n xs =
     (if n < 0 then take (nat (int (length xs) + n)) xs else take (nat n) xs)"

text \<open>\<open>parts.join(sep)\<close>.\<close>

fun join :: "jsstring \<Rightarrow> jsstring list \<Rightarrow> jsstring" where
  "join sep [] = []"
| "join sep [x] = x"
| "join sep (x # y # ys) = x @ sep @ join sep (y # ys)"

text \<open>The decimal rendering of a non-negative integer, as a template literal prints it.\<close>

fun show_nat :: "nat \<Rightarrow> jsstring" where
  "show_nat n = (if n < 10 then [48 + n] else show_nat (n div 10) @ [48 + n mod 10])"

declare show_nat.simps [simp del]

text \<open>
  \<open>Number(v) || d\<close> for a setting read from the environment: \<open>None\<close> is an unset or
  non-numeric setting (NaN), and both NaN and 0 are falsy.
\<close>

definition number_or :: "int option \<Rightarrow> int \<Rightarrow> int" where
  "number_or v d = (case v of None \<Rightarrow> d | Some n \<Rightarrow> if n = 0 then d else n)"

text \<open>\<open>a ?? b\<close> keeps \<open>a\<close> unless it is null or undefined; \<open>a || d\<close> on a string also
  replaces the empty string.\<close>

definition nullish :: "'a option \<Rightarrow> 'a option \<Rightarrow> 'a option" where
  "nullish a b = (case a of None \<Rightarrow> b | Some x \<Rightarrow> Some x)"

definition nullish_or :: "'a option \<Rightarrow> 'a \<Rightarrow> 'a" where
  "nullish_or a d = (case a of None \<Rightarrow> d | Some x \<Rightarrow> x)"

definition truthy :: "jsstring option \<Rightarrow> bool" where
  "truthy a = (case a of None \<Rightarrow> False | Some s \<Rightarrow> s \<noteq> [])"

definition falsy_or :: "jsstring option \<Rightarrow> jsstring \<Rightarrow> jsstring" where
  "falsy_or a d = (if truthy a then the a else d)"

text \<open>
  The \<open>id\<close> property of a fetched FAQ object: absent, a string or an integer.
\<close>

datatype jsid = NoId | StrId jsstring | NumId int

text \<open>
  FAQ objects as the service passes them around: plain objects whose properties may be
  absent (\<open>None\<close>). Fetched records, index payloads and search results are all such
  objects; search results carry \<open>faqId\<close> and \<open>score\<close> next to the payload's properties.
\<close>

record faq =
  faq_id :: jsid
  question :: "jsstring option"
  questionEnglish :: "jsstring option"
  title :: "jsstring option"
  answer :: "jsstring option"
  answerEnglish :: "jsstring option"
  response :: "jsstring option"
  questionHindi :: "jsstring option"
  answerHindi :: "jsstring option"
  category :: "jsstring option"
  text_field :: "jsstring option"
  faqId :: "int option"
  score :: "rat option"

definition empty_obj :: faq where
  "empty_obj = \<lparr>faq_id = NoId, question = None, questionEnglish = None, title = None,
     answer = None, answerEnglish = None, response = None, questionHindi = None,
     answerHindi = None, category = None, text_field = None, faqId = None, score = None\<rparr>"

section \<open>Context formatting\<close>

text \<open>The template \<open>`FAQ ${idx + 1}:\nQuestion: ${question}\nAnswer: ${answer}`\<close>.\<close>

definition faq_block :: "nat \<Rightarrow> jsstring \<Rightarrow> jsstring \<Rightarrow> jsstring" where
  "faq_block idx q a =
     lit ''FAQ '' @ show_nat (idx + 1) @ lit '':\<newline>Question: '' @ q @ lit ''\<newline>Answer: '' @ a"

text \<open>
  \<open>formatFaqContext\<close> of \<open>index.js\<close> (the lexical strategy). Its character budget is
  \<open>CONTEXT_CHAR_LIMIT = Number(FAQ_CONTEXT_CHAR_LIMIT) || 2000\<close>.
\<close>

definition CONTEXT_CHAR_LIMIT :: "int option \<Rightarrow> int" where
  "CONTEXT_CHAR_LIMIT env = number_or env 2000"

definition index_formatFaqContext :: "int \<Rightarrow> faq list \<Rightarrow> jsstring" where
  "index_formatFaqContext char_limit faqs =
     (if faqs = [] then []
      else slice0 char_limit
        (join (lit ''\<newline>\<newline>'')
          (map (\<lambda>(idx, f).
             faq_block idx
               (nullish_or (nullish (nullish (question f) (questionEnglish f)) (title f))
                  (lit ''Question unavailable''))
               (nullish_or (nullish (nullish (answer f) (answerEnglish f)) (response f))
                  (lit ''Answer unavailable'')))
           (enumerate 0 faqs))))"

text \<open>
  \<open>formatFaqContext\<close> of the vector strategy, with the constant budget 2000. It reads
  \<open>questionEnglish\<close> and \<open>answerEnglish\<close> only, and with \<open>||\<close>.
\<close>

definition vector_CONTEXT_CHAR_LIMIT :: int where
  "vector_CONTEXT_CHAR_LIMIT = 2000"

definition vector_formatFaqContext :: "faq list \<Rightarrow> jsstring" where
  "vector_formatFaqContext faqs =
     (if faqs = [] then []
      else slice0 vector_CONTEXT_CHAR_LIMIT
        (join (lit ''\<newline>\<newline>'')
          (map (\<lambda>(idx, f).
             faq_block idx
               (falsy_or (questionEnglish f) (lit ''Question unavailable''))
               (falsy_or (answerEnglish f) (lit ''Answer unavailable'')))
           (enumerate 0 faqs))))"

section \<open>Errors\<close>

text \<open>
  Every \<open>throw\<close> of the modelled code is a value of \<open>error\<close>; a function that can throw
  returns \<open>error + 'a\<close> with \<open>Inl\<close> for the thrown error. \<open>RemoteFailure\<close> stands for any
  error raised by an external call (the HTTP source, the embedding provider, the vector
  database). Logging has no effect on results and is left out.
\<close>

datatype error =
    KeyNotConfigured
  | TextNotNonEmpty
  | KeyEmpty
  | EmptyEmbedding
  | RemoteFailure
  | FaqMissingId
  | CountMismatch nat nat
  | PointMissingId nat
  | PointInvalidVector nat

text \<open>
  The results of a sequence of computations, or the first error in index order. This is
  \<open>xs.map(f)\<close> where \<open>f\<close> may throw, and \<open>Promise.all\<close>, which rejects as soon as one
  promise rejects (which rejection it reports when several fail depends on timing; the
  model reports the one of lowest index).
\<close>

fun all_or_first_error :: "(error + 'a) list \<Rightarrow> error + 'a list" where
  "all_or_first_error [] = Inr []"
| "all_or_first_error (Inl e # rs) = Inl e"
| "all_or_first_error (Inr v # rs) =
     (case all_or_first_error rs of Inl e \<Rightarrow> Inl e | Inr vs \<Rightarrow> Inr (v # vs))"

section \<open>embeddings.js\<close>

text \<open>
  An embedding vector; the code never inspects its components, only whether it is an
  array and how long it is.
\<close>

type_synonym vector = "rat list"

text \<open>
  What \<open>model.embedContent\<close> does for a text: the call throws, or it returns a result
  whose \<open>embedding?.values\<close> is absent, is not an array, or is an array.
\<close>

datatype embed_response = CallThrows | NoValues | NotAnArray | Values vector

text \<open>
  \<open>generateEmbedding(text)\<close>, with the credential \<open>GOOGLE_API_KEY\<close> and the provider as
  parameters. The \<open>catch\<close> block rethrows the error it caught.
\<close>

definition generateEmbedding ::
  "jsstring option \<Rightarrow> (jsstring \<Rightarrow> embed_response) \<Rightarrow> jsstring \<Rightarrow> error + vector" where
  "generateEmbedding GOOGLE_API_KEY embedContent text =
     (if \<not> truthy GOOGLE_API_KEY then Inl KeyNotConfigured
      else if text = [] \<or> length (trim text) = 0 then Inl TextNotNonEmpty
      else if trim (the GOOGLE_API_KEY) = [] then Inl KeyEmpty
      else (case embedContent text of
              CallThrows \<Rightarrow> Inl RemoteFailure
            | NoValues \<Rightarrow> Inl EmptyEmbedding
            | NotAnArray \<Rightarrow> Inl EmptyEmbedding
            | Values embedding \<Rightarrow>
                if length embedding = 0 then Inl EmptyEmbedding else Inr embedding))"

text \<open>
  \<open>generateEmbeddingsBatch(texts)\<close>: the \<open>for\<close> loop over batches of \<open>batchSize = 10\<close>,
  with \<open>i\<close> and the accumulated \<open>embeddings\<close> as loop state. The pause between batches
  does not affect the result.
\<close>

definition batchSize :: nat where
  "batchSize = 10"

function batch_loop ::
  "(jsstring \<Rightarrow> error + vector) \<Rightarrow> jsstring list \<Rightarrow> nat \<Rightarrow> vector list \<Rightarrow> error + vector list" where
  "batch_loop gen texts i embeddings =
     (if i < length texts then
        (case all_or_first_error (map gen (take batchSize (drop i texts))) of
           Inl e \<Rightarrow> Inl e
         | Inr batchResults \<Rightarrow> batch_loop gen texts (i + batchSize) (embeddings @ batchResults))
      else Inr embeddings)"
  by pat_completeness auto
termination
  by (relation "measure (\<lambda>(gen, texts, i, embeddings). length texts - i)")
     (auto simp: batchSize_def)

declare batch_loop.simps [simp del]

definition generateEmbeddingsBatch ::
  "jsstring option \<Rightarrow> (jsstring \<Rightarrow> embed_response) \<Rightarrow> jsstring list \<Rightarrow> error + vector list" where
  "generateEmbeddingsBatch GOOGLE_API_KEY embedContent texts =
     (if length texts = 0 then Inr []
      else batch_loop (generateEmbedding GOOGLE_API_KEY embedContent) texts 0 [])"

section \<open>qdrant.js\<close>

text \<open>\<open>parseInt(s, 10)\<close>: leading white space is skipped, then an optional sign, then
  the longest run of decimal digits; \<open>None\<close> is NaN.\<close>

definition is_digit :: "nat \<Rightarrow> bool" where
  "is_digit c \<longleftrightarrow> 48 \<le> c \<and> c \<le> 57"

definition parseInt :: "jsstring \<Rightarrow> int option" where
  "parseInt s =
     (let S = dropWhile is_ws s;
          negative = (S \<noteq> [] \<and> hd S = 45);
          S' = (if S \<noteq> [] \<and> (hd S = 43 \<or> hd S = 45) then tl S else S);
          Z = takeWhile is_digit S'
      in if Z = [] then None
         else Some ((if negative then - 1 else 1) * int (foldl (\<lambda>a c. 10 * a + (c - 48)) 0 Z)))"

text \<open>\<open>s.replace(pat, rep)\<close> with a string pattern replaces its first occurrence.\<close>

fun replace_first :: "jsstring \<Rightarrow> jsstring \<Rightarrow> jsstring \<Rightarrow> jsstring" where
  "replace_first pat rep [] = (if pat = [] then rep else [])"
| "replace_first pat rep (c # cs) =
     (if prefix pat (c # cs) then rep @ drop (length pat) (c # cs)
      else c # replace_first pat rep cs)"

text \<open>
  The numeric point id that \<open>upsertPoints\<close> derives from \<open>point.id\<close> (the \<open>let pointId\<close>
  block): \<open>parseInt(..) || Math.abs(sum of char codes)\<close>, on the id without its \<open>faq_\<close>
  prefix when it has one.
\<close>

definition char_code_sum :: "jsstring \<Rightarrow> int" where
  "char_code_sum s = int (foldl (\<lambda>acc char. acc + char) 0 s)"

definition pointId_of :: "jsstring \<Rightarrow> int" where
  "pointId_of pid =
     (if prefix (lit ''faq_'') pid then
        (let hash = replace_first (lit ''faq_'') [] pid
         in number_or (parseInt hash) \<bar>char_code_sum hash\<bar>)
      else number_or (parseInt pid) \<bar>char_code_sum pid\<bar>)"

record point =
  pid :: jsstring
  vector :: "vector option"
  payload :: "faq option"

record prepared =
  prep_id :: int
  prep_vector :: vector
  prep_payload :: faq

text \<open>The callback of \<open>points.map\<close> in \<open>upsertPoints\<close>; a missing or non-array vector
  is \<open>None\<close>.\<close>

definition preparePoint :: "nat \<Rightarrow> point \<Rightarrow> error + prepared" where
  "preparePoint index p =
     (if pid p = [] then Inl (PointMissingId index)
      else (case vector p of
              None \<Rightarrow> Inl (PointInvalidVector index)
            | Some v \<Rightarrow>
                Inr \<lparr>prep_id = pointId_of (pid p), prep_vector = v,
                     prep_payload = (case payload p of None \<Rightarrow> empty_obj | Some pl \<Rightarrow> pl)\<rparr>))"

definition preparedPoints :: "point list \<Rightarrow> error + prepared list" where
  "preparedPoints points =
     all_or_first_error (map (\<lambda>(index, p). preparePoint index p) (enumerate 0 points))"


text \<open>
  The vector database behind the client. \<open>collections\<close> lists the existing collections
  (name and vector size), \<open>points\<close> holds the points stored under the configured
  collection name, \<open>rejects\<close> says which requests the service currently answers with an
  error (outage, missing credential, invalid request), and \<open>nearest\<close> is the service's
  ranking of the stored points for a query vector, best first. The counter
  \<open>upsertPoints_invocations\<close> is not part of the database: it records how often
  \<open>upsertPoints\<close> has been called.
\<close>

datatype request =
    GetCollections
  | CreateCollection jsstring int
  | Upsert jsstring "prepared list"
  | Search jsstring vector int rat

record hit =
  hit_id :: int
  hit_score :: rat
  hit_payload :: "faq option"

record qdrant =
  collections :: "(jsstring \<times> int) list"
  points :: "int \<rightharpoonup> vector \<times> faq"
  rejects :: "request \<Rightarrow> bool"
  nearest :: "vector \<Rightarrow> hit list"
  upsertPoints_invocations :: nat

text \<open>A database without any collection or point that accepts every request.\<close>

definition fresh_db :: qdrant where
  "fresh_db = \<lparr>collections = [], points = Map.empty, rejects = (\<lambda>request. False),
     nearest = (\<lambda>queryVector. []), upsertPoints_invocations = 0\<rparr>"

text \<open>\<open>EMBEDDING_DIMENSIONS = Number(process.env.FAQ_EMBEDDING_DIMENSIONS) || 3072\<close>.\<close>

definition EMBEDDING_DIMENSIONS :: "int option \<Rightarrow> int" where
  "EMBEDDING_DIMENSIONS env = number_or env 3072"

text \<open>
  \<open>ensureCollection()\<close>, for the collection name \<open>QDRANT_COLLECTION_NAME\<close>. Functions
  that act on the database return their outcome together with the database they leave
  behind, also when they throw.
\<close>

definition ensureCollection ::
  "jsstring \<Rightarrow> int option \<Rightarrow> qdrant \<Rightarrow> (error + unit) \<times> qdrant" where
  "ensureCollection QDRANT_COLLECTION_NAME dim_env db =
     (if rejects db GetCollections then (Inl RemoteFailure, db)
      else if list_ex (\<lambda>col. fst col = QDRANT_COLLECTION_NAME) (collections db)
        then (Inr (), db)
      else if rejects db (CreateCollection QDRANT_COLLECTION_NAME (EMBEDDING_DIMENSIONS dim_env))
        then (Inl RemoteFailure, db)
      else (Inr (),
            db\<lparr>collections :=
                 collections db @ [(QDRANT_COLLECTION_NAME, EMBEDDING_DIMENSIONS dim_env)]\<rparr>))"

text \<open>
  \<open>upsertPoints(points)\<close>. An upsert that the service accepts stores every prepared
  point under its numeric id, a later point replacing an earlier one with the same id.
\<close>

definition store_points :: "prepared list \<Rightarrow> (int \<rightharpoonup> vector \<times> faq) \<Rightarrow> (int \<rightharpoonup> vector \<times> faq)" where
  "store_points ps m = fold (\<lambda>p m. m(prep_id p \<mapsto> (prep_vector p, prep_payload p))) ps m"

definition upsertPoints :: "jsstring \<Rightarrow> point list \<Rightarrow> qdrant \<Rightarrow> (error + unit) \<times> qdrant" where
  "upsertPoints QDRANT_COLLECTION_NAME pts db0 =
     (let db = db0\<lparr>upsertPoints_invocations := Suc (upsertPoints_invocations db0)\<rparr>
      in if length pts = 0 then (Inr (), db)
         else (case preparedPoints pts of
                 Inl e \<Rightarrow> (Inl e, db)
               | Inr prepared \<Rightarrow>
                   if rejects db (Upsert QDRANT_COLLECTION_NAME prepared)
                   then (Inl RemoteFailure, db)
                   else (Inr (), db\<lparr>points := store_points prepared (points db)\<rparr>)))"

text \<open>
  \<open>searchVectors(queryVector, limit, scoreThreshold)\<close>. The service returns at most
  \<open>limit\<close> of its nearest points whose score reaches \<open>score_threshold\<close>; each result is
  \<open>{faqId: result.id, score: result.score, ...result.payload}\<close>, where the payload's own
  properties are spread last.
\<close>

definition client_search :: "qdrant \<Rightarrow> vector \<Rightarrow> int \<Rightarrow> rat \<Rightarrow> hit list" where
  "client_search db queryVector limit scoreThreshold =
     take (nat limit) (filter (\<lambda>h. scoreThreshold \<le> hit_score h) (nearest db queryVector))"

definition search_result :: "hit \<Rightarrow> faq" where
  "search_result result =
     (case hit_payload result of
        None \<Rightarrow> empty_obj\<lparr>faqId := Some (hit_id result), score := Some (hit_score result)\<rparr>
      | Some pl \<Rightarrow>
          pl\<lparr>faqId := nullish (faqId pl) (Some (hit_id result)),
             score := nullish (score pl) (Some (hit_score result))\<rparr>)"

definition searchVectors ::
  "jsstring \<Rightarrow> qdrant \<Rightarrow> vector \<Rightarrow> int \<Rightarrow> rat \<Rightarrow> error + faq list" where
  "searchVectors QDRANT_COLLECTION_NAME db queryVector limit scoreThreshold =
     (if rejects db (Search QDRANT_COLLECTION_NAME queryVector limit scoreThreshold)
      then Inl RemoteFailure
      else Inr (map search_result (client_search db queryVector limit scoreThreshold)))"

section \<open>sync.js\<close>

definition combineFaqText :: "faq \<Rightarrow> jsstring" where
  "combineFaqText f =
     trim (join (lit '' '')
       ((if truthy (questionEnglish f) then [the (questionEnglish f)] else []) @
        (if truthy (answerEnglish f) then [the (answerEnglish f)] else []) @
        (if truthy (questionHindi f) then [the (questionHindi f)] else []) @
        (if truthy (answerHindi f) then [the (answerHindi f)] else [])))"

text \<open>\<open>String(n)\<close> for an integer.\<close>

definition show_int :: "int \<Rightarrow> jsstring" where
  "show_int n = (if n < 0 then 45 # show_nat (nat (- n)) else show_nat (nat n))"

text \<open>\<open>getFaqId(faq)\<close>: a missing id, the empty string and 0 are falsy.\<close>

definition getFaqId :: "faq \<Rightarrow> error + jsstring" where
  "getFaqId f =
     (case faq_id f of
        NoId \<Rightarrow> Inl FaqMissingId
      | StrId s \<Rightarrow> if s = [] then Inl FaqMissingId else Inr s
      | NumId n \<Rightarrow> if n = 0 then Inl FaqMissingId else Inr (show_int n))"

text \<open>
  The answer of the HTTP source to \<open>axios.get\<close>: the request fails, or it returns data
  that is an array of FAQ objects or something else.
\<close>

datatype http_response = HttpFails | HttpArray "faq list" | HttpOther

text \<open>\<open>fetchFaqs()\<close> of \<open>sync.js\<close>; here \<open>FAQ_API_URL\<close> has no default.\<close>

definition sync_fetchFaqs :: "jsstring option \<Rightarrow> http_response \<Rightarrow> error + faq list" where
  "sync_fetchFaqs FAQ_API_URL source =
     (if \<not> truthy FAQ_API_URL then Inr []
      else (case source of
              HttpFails \<Rightarrow> Inl RemoteFailure
            | HttpArray data \<Rightarrow> Inr data
            | HttpOther \<Rightarrow> Inr []))"

record sync_report =
  synced :: nat
  updated :: nat
  errors :: nat

text \<open>One entry of \<open>faqData\<close>, and the callback of \<open>faqs.map\<close> that builds it.\<close>

record faq_data =
  d_faqId :: jsstring
  d_questionEnglish :: jsstring
  d_questionHindi :: jsstring
  d_answerEnglish :: jsstring
  d_answerHindi :: jsstring
  d_category :: jsstring
  d_text :: jsstring

definition buildFaqData :: "faq \<Rightarrow> error + faq_data" where
  "buildFaqData f =
     (case getFaqId f of
        Inl e \<Rightarrow> Inl e
      | Inr fid \<Rightarrow>
          Inr \<lparr>d_faqId = fid,
               d_questionEnglish = falsy_or (questionEnglish f) [],
               d_questionHindi = falsy_or (questionHindi f) [],
               d_answerEnglish = falsy_or (answerEnglish f) [],
               d_answerHindi = falsy_or (answerHindi f) [],
               d_category = falsy_or (category f) [],
               d_text = combineFaqText f\<rparr>)"

text \<open>\<open>qdrantPoints\<close>: \<open>embeddings[index]\<close> is undefined beyond the end of the array.\<close>

definition qdrantPoints :: "faq_data list \<Rightarrow> vector list \<Rightarrow> point list" where
  "qdrantPoints faqData embeddings =
     map (\<lambda>(index, d).
            \<lparr>pid = d_faqId d,
             vector = (if index < length embeddings then Some (embeddings ! index) else None),
             payload = Some (empty_obj\<lparr>questionEnglish := Some (d_questionEnglish d),
                                       questionHindi := Some (d_questionHindi d),
                                       answerEnglish := Some (d_answerEnglish d),
                                       answerHindi := Some (d_answerHindi d),
                                       category := Some (d_category d),
                                       text_field := Some (d_text d)\<rparr>)\<rparr>)
         (enumerate 0 faqData)"

text \<open>
  \<open>syncFaqs()\<close>. The embedding stage (the imported \<open>generateEmbeddingsBatch\<close>) is the
  first parameter; \<open>syncFaqs\<close> below runs it with the stage of \<open>embeddings.js\<close>.
  The \<open>catch\<close> block rethrows.
\<close>

definition syncFaqs_with ::
  "(jsstring list \<Rightarrow> error + vector list) \<Rightarrow> jsstring \<Rightarrow> int option \<Rightarrow> jsstring option \<Rightarrow>
   http_response \<Rightarrow> qdrant \<Rightarrow> (error + sync_report) \<times> qdrant" where
  "syncFaqs_with embeddingsBatch QDRANT_COLLECTION_NAME dim_env FAQ_API_URL source db0 =
     (case ensureCollection QDRANT_COLLECTION_NAME dim_env db0 of
        (Inl e, db) \<Rightarrow> (Inl e, db)
      | (Inr _, db) \<Rightarrow>
          (case sync_fetchFaqs FAQ_API_URL source of
             Inl e \<Rightarrow> (Inl e, db)
           | Inr faqs \<Rightarrow>
               if length faqs = 0 then (Inr \<lparr>synced = 0, updated = 0, errors = 0\<rparr>, db)
               else (case all_or_first_error (map buildFaqData faqs) of
                       Inl e \<Rightarrow> (Inl e, db)
                     | Inr faqData \<Rightarrow>
                         (case embeddingsBatch (map d_text faqData) of
                            Inl e \<Rightarrow> (Inl e, db)
                          | Inr embeddings \<Rightarrow>
                              if length embeddings \<noteq> length faqData
                              then (Inl (CountMismatch (length faqData) (length embeddings)), db)
                              else (case upsertPoints QDRANT_COLLECTION_NAME
                                           (qdrantPoints faqData embeddings) db of
                                      (Inl e, db') \<Rightarrow> (Inl e, db')
                                    | (Inr _, db') \<Rightarrow>
                                        (Inr \<lparr>synced = length faqData, updated = 0, errors = 0\<rparr>,
                                         db'))))))"

definition syncFaqs ::
  "jsstring option \<Rightarrow> (jsstring \<Rightarrow> embed_response) \<Rightarrow> jsstring \<Rightarrow> int option \<Rightarrow>
   jsstring option \<Rightarrow> http_response \<Rightarrow> qdrant \<Rightarrow> (error + sync_report) \<times> qdrant" where
  "syncFaqs GOOGLE_API_KEY embedContent =
     syncFaqs_with (generateEmbeddingsBatch GOOGLE_API_KEY embedContent)"

section \<open>index.js: the cached fetch and lexical selection\<close>

text \<open>
  The module-level \<open>cache\<close> slot. The counter \<open>source_requests\<close> is not part of the
  cache: it records how often \<open>axios.get\<close> has been called.
\<close>

record faq_cache =
  cache_value :: "faq list option"
  cache_expiresAt :: int
  source_requests :: nat

definition DEFAULT_CACHE_TTL :: "int option \<Rightarrow> int" where
  "DEFAULT_CACHE_TTL env = number_or env 60000"

text \<open>
  \<open>fetchFaqs()\<close> of \<open>index.js\<close>, at time \<open>now = Date.now()\<close>, where \<open>source\<close> is what the
  HTTP source would answer. An array, also an empty one, is truthy.
\<close>

definition index_fetchFaqs ::
  "jsstring \<Rightarrow> int \<Rightarrow> int \<Rightarrow> http_response \<Rightarrow> faq_cache \<Rightarrow> (error + faq list) \<times> faq_cache" where
  "index_fetchFaqs FAQ_API_URL ttl now source cache =
     (if FAQ_API_URL = [] then (Inr [], cache)
      else if cache_value cache \<noteq> None \<and> cache_expiresAt cache > now
        then (Inr (the (cache_value cache)), cache)
      else (let requested = cache\<lparr>source_requests := Suc (source_requests cache)\<rparr>
            in case source of
                 HttpArray data \<Rightarrow>
                   (Inr data, requested\<lparr>cache_value := Some data, cache_expiresAt := now + ttl\<rparr>)
               | HttpOther \<Rightarrow>
                   (Inr [], requested\<lparr>cache_value := Some [], cache_expiresAt := now + ttl\<rparr>)
               | HttpFails \<Rightarrow> (Inr (nullish_or (cache_value requested) []), requested)))"

text \<open>
  \<open>s.split(/\s+/)\<close>: every maximal run of white space separates two pieces; \<open>cur\<close> is
  the piece being read.
\<close>

function split_ws :: "jsstring \<Rightarrow> jsstring \<Rightarrow> jsstring list" where
  "split_ws cur [] = [cur]"
| "split_ws cur (c # cs) =
     (if is_ws c then cur # split_ws [] (dropWhile is_ws cs) else split_ws (cur @ [c]) cs)"
  by pat_completeness auto
termination
  by (relation "measure (\<lambda>(cur, s). length s)")
     (auto simp: le_imp_less_Suc length_dropWhile_le)

text \<open>
  \<open>String.prototype.toLowerCase\<close> is the host's Unicode case mapping; the functions
  below take it as the parameter \<open>toLowerCase\<close>. \<open>ascii_toLowerCase\<close> is what it does on
  ASCII text.
\<close>

definition ascii_toLowerCase :: "jsstring \<Rightarrow> jsstring" where
  "ascii_toLowerCase s = map (\<lambda>c. if 65 \<le> c \<and> c \<le> 90 then c + 32 else c) s"

definition query_tokens :: "(jsstring \<Rightarrow> jsstring) \<Rightarrow> jsstring \<Rightarrow> jsstring list" where
  "query_tokens toLowerCase query =
     filter (\<lambda>token. token \<noteq> []) (map trim (split_ws [] (toLowerCase query)))"

text \<open>\<open>combined.includes(token)\<close>.\<close>

definition js_includes :: "jsstring \<Rightarrow> jsstring \<Rightarrow> bool" where
  "js_includes s t = sublist t s"

definition combined_text :: "(jsstring \<Rightarrow> jsstring) \<Rightarrow> faq \<Rightarrow> jsstring" where
  "combined_text toLowerCase f =
     toLowerCase (nullish_or (nullish (nullish (question f) (questionEnglish f)) (title f)) [])
     @ lit '' '' @
     toLowerCase (nullish_or (nullish (nullish (answer f) (answerEnglish f)) (response f)) [])
     @ lit '' '' @
     toLowerCase (nullish_or (questionHindi f) [])
     @ lit '' '' @
     toLowerCase (nullish_or (answerHindi f) [])"

definition faq_score :: "(jsstring \<Rightarrow> jsstring) \<Rightarrow> jsstring list \<Rightarrow> faq \<Rightarrow> nat" where
  "faq_score toLowerCase tokens f =
     foldl (\<lambda>acc token. acc + (if js_includes (combined_text toLowerCase f) token then 1 else 0))
       0 tokens"

text \<open>
  \<open>Array.prototype.sort\<close> with a comparator is stable; for a consistent comparator its
  result is the stable sorted arrangement, which insertion from the right computes.
\<close>

fun insert_by :: "('a \<Rightarrow> 'a \<Rightarrow> int) \<Rightarrow> 'a \<Rightarrow> 'a list \<Rightarrow> 'a list" where
  "insert_by cmp x [] = [x]"
| "insert_by cmp x (y # ys) = (if cmp x y \<le> 0 then x # y # ys else y # insert_by cmp x ys)"

definition js_sort :: "('a \<Rightarrow> 'a \<Rightarrow> int) \<Rightarrow> 'a list \<Rightarrow> 'a list" where
  "js_sort cmp xs = foldr (insert_by cmp) xs []"

text \<open>The comparator of \<open>scored.sort\<close>, on entries \<open>{score, faq, index}\<close>.\<close>

definition compare_scored :: "nat \<times> faq \<times> nat \<Rightarrow> nat \<times> faq \<times> nat \<Rightarrow> int" where
  "compare_scored a b =
     (if fst b = fst a then int (snd (snd a)) - int (snd (snd b))
      else int (fst b) - int (fst a))"

text \<open>\<open>DEFAULT_LIMIT = Number(FAQ_MAX_RESULTS) || 5\<close>.\<close>

definition DEFAULT_LIMIT :: "int option \<Rightarrow> int" where
  "DEFAULT_LIMIT env = number_or env 5"

text \<open>
  \<open>selectRelevantFaqs(faqs, query)\<close>; a query that is not a string is \<open>None\<close>.
\<close>

definition selectRelevantFaqs ::
  "(jsstring \<Rightarrow> jsstring) \<Rightarrow> int \<Rightarrow> faq list \<Rightarrow> jsstring option \<Rightarrow> faq list" where
  "selectRelevantFaqs toLowerCase limit faqs query =
     (if length faqs = 0 then []
      else if \<not> truthy query then slice0 limit faqs
      else (let tokens = query_tokens toLowerCase (the query)
            in if length tokens = 0 then slice0 limit faqs
               else (let scored =
                           filter (\<lambda>(score, f, index). score > 0)
                             (map (\<lambda>(index, f). (faq_score toLowerCase tokens f, f, index))
                                (enumerate 0 faqs))
                     in if length scored = 0 then slice0 limit faqs
                        else map (\<lambda>(score, f, index). f)
                               (slice0 limit (js_sort compare_scored scored)))))"

section \<open>The vector strategy\<close>

definition vector_DEFAULT_LIMIT :: int where
  "vector_DEFAULT_LIMIT = 5"

definition SCORE_THRESHOLD :: rat where
  "SCORE_THRESHOLD = 1 / 2"

text \<open>
  \<open>getFaqContext(query)\<close> of the vector strategy; \<open>null\<close> is \<open>None\<close>, and a query that
  is not a string is \<open>None\<close>. \<open>try_body\<close> is the body of the \<open>try\<close> block; the \<open>catch\<close>
  block returns \<open>null\<close>.
\<close>

definition try_body ::
  "jsstring option \<Rightarrow> (jsstring \<Rightarrow> embed_response) \<Rightarrow> jsstring \<Rightarrow> qdrant \<Rightarrow> jsstring \<Rightarrow>
   error + jsstring option" where
  "try_body GOOGLE_API_KEY embedContent QDRANT_COLLECTION_NAME db query =
     (case generateEmbedding GOOGLE_API_KEY embedContent (trim query) of
        Inl e \<Rightarrow> Inl e
      | Inr queryEmbedding \<Rightarrow>
          if length queryEmbedding = 0 then Inr None
          else (case searchVectors QDRANT_COLLECTION_NAME db queryEmbedding
                       vector_DEFAULT_LIMIT SCORE_THRESHOLD of
                  Inl e \<Rightarrow> Inl e
                | Inr relevantFaqs \<Rightarrow>
                    if length relevantFaqs = 0 then Inr None
                    else Inr (Some (vector_formatFaqContext relevantFaqs))))"

definition vector_getFaqContext ::
  "jsstring option \<Rightarrow> (jsstring \<Rightarrow> embed_response) \<Rightarrow> jsstring \<Rightarrow> qdrant \<Rightarrow> jsstring option \<Rightarrow>
   error + jsstring option" where
  "vector_getFaqContext GOOGLE_API_KEY embedContent QDRANT_COLLECTION_NAME db query =
     (if \<not> truthy query \<or> length (trim (the query)) = 0 then Inr None
      else (case try_body GOOGLE_API_KEY embedContent QDRANT_COLLECTION_NAME db (the query) of
              Inl error \<Rightarrow> Inr None
            | Inr result \<Rightarrow> Inr result))"

section \<open>Auxiliary facts\<close>

lemma length_slice0: "0 \<le> n \<Longrightarrow> int (length (slice0 n xs)) \<le> n"
  by (simp add: slice0_def)

lemma slice0_nonneg: "0 \<le> n \<Longrightarrow> slice0 n xs = take (nat n) xs"
  by (simp add: slice0_def)

lemma map_enumerate_nth:
  "map (\<lambda>(i, x). g i x) (enumerate n xs) = map (\<lambda>i. g (n + i) (xs ! i)) [0..<length xs]"
proof (induction xs arbitrary: n)
  case Nil
  then show ?case by simp
next
  case (Cons x xs)
  have "map (\<lambda>i. g (n + i) ((x # xs) ! i)) [0..<length (x # xs)]
      = g n x # map (\<lambda>i. g (n + Suc i) (xs ! i)) [0..<length xs]"
    by (simp add: upt_conv_Cons map_Suc_upt[symmetric] del: upt_Suc)
  with Cons show ?case by simp
qed

lemma nullish_chain:
  "nullish_or (nullish (nullish a b) c) d =
     (case a of Some x \<Rightarrow> x
      | None \<Rightarrow> (case b of Some x \<Rightarrow> x | None \<Rightarrow> (case c of Some x \<Rightarrow> x | None \<Rightarrow> d)))"
  by (simp add: nullish_def nullish_or_def split: option.splits)

lemma falsy_or_cases:
  "falsy_or x d = (case x of Some q \<Rightarrow> if q = [] then d else q | None \<Rightarrow> d)"
  by (simp add: falsy_or_def truthy_def split: option.splits)

text \<open>The decimal rendering consists of digits, and \<open>parseInt\<close> reads it back.\<close>

lemma show_nat_digits: "show_nat n \<noteq> [] \<and> (\<forall>c\<in>set (show_nat n). is_digit c)"
proof (induction n rule: show_nat.induct)
  case (1 n)
  show ?case
  proof (cases "n < 10")
    case True
    then show ?thesis by (subst show_nat.simps, subst (2) show_nat.simps) (simp add: is_digit_def)
  next
    case False
    have "n mod 10 < 10" by simp
    then have "is_digit (48 + n mod 10)" unfolding is_digit_def by linarith
    with False "1.IH" show ?thesis
      by (subst show_nat.simps, subst (2) show_nat.simps) simp
  qed
qed

lemma show_nat_value: "foldl (\<lambda>a c. 10 * a + (c - 48)) 0 (show_nat n) = n"
proof (induction n rule: show_nat.induct)
  case (1 n)
  show ?case
  proof (cases "n < 10")
    case True
    then show ?thesis by (subst show_nat.simps) simp
  next
    case False
    with "1.IH" show ?thesis by (subst show_nat.simps) simp
  qed
qed

lemma digit_not_ws: "is_digit c \<Longrightarrow> \<not> is_ws c \<and> c \<noteq> 43 \<and> c \<noteq> 45"
  by (auto simp: is_digit_def is_ws_def)

lemma parseInt_show_nat: "parseInt (show_nat n) = Some (int n)"
proof -
  obtain d ds where ds: "show_nat n = d # ds" using show_nat_digits [of n] by (cases "show_nat n") auto
  then have d: "is_digit d" and all: "\<forall>c\<in>set (d # ds). is_digit c"
    using show_nat_digits [of n] by auto
  from d have nws: "\<not> is_ws d" "d \<noteq> 43" "d \<noteq> 45" using digit_not_ws by auto
  have tw: "takeWhile is_digit (d # ds) = d # ds" using all by (simp add: takeWhile_eq_all_conv)
  have v: "foldl (\<lambda>a c. 10 * a + (c - 48)) 0 (d # ds) = n"
    using show_nat_value [of n] by (simp only: ds)
  show ?thesis
    unfolding parseInt_def ds using nws
    by (simp add: Let_def tw v del: foldl_Cons takeWhile.simps)
qed

section \<open>Context formatting (C8)\<close>

lemma index_format_blocks:
  assumes "0 \<le> char_limit"
  shows "index_formatFaqContext char_limit faqs =
     take (nat char_limit) (join (lit ''\<newline>\<newline>'')
       (map (\<lambda>i. lit ''FAQ '' @ show_nat (i + 1) @ lit '':\<newline>Question: '' @
                 (case question (faqs ! i) of Some q \<Rightarrow> q | None \<Rightarrow>
                    (case questionEnglish (faqs ! i) of Some q \<Rightarrow> q | None \<Rightarrow>
                       (case title (faqs ! i) of Some q \<Rightarrow> q
                        | None \<Rightarrow> lit ''Question unavailable''))) @
                 lit ''\<newline>Answer: '' @
                 (case answer (faqs ! i) of Some a \<Rightarrow> a | None \<Rightarrow>
                    (case answerEnglish (faqs ! i) of Some a \<Rightarrow> a | None \<Rightarrow>
                       (case response (faqs ! i) of Some a \<Rightarrow> a
                        | None \<Rightarrow> lit ''Answer unavailable''))))
          [0..<length faqs]))"
proof (cases "faqs = []")
  case True
  then show ?thesis by (simp add: index_formatFaqContext_def)
next
  case False
  then show ?thesis using assms
    by (simp add: index_formatFaqContext_def slice0_nonneg map_enumerate_nth faq_block_def
        nullish_chain)
qed

lemma vector_format_blocks:
  "vector_formatFaqContext faqs =
     take 2000 (join (lit ''\<newline>\<newline>'')
       (map (\<lambda>i. lit ''FAQ '' @ show_nat (i + 1) @ lit '':\<newline>Question: '' @
                 (case questionEnglish (faqs ! i) of
                    Some q \<Rightarrow> if q = [] then lit ''Question unavailable'' else q
                  | None \<Rightarrow> lit ''Question unavailable'') @
                 lit ''\<newline>Answer: '' @
                 (case answerEnglish (faqs ! i) of
                    Some a \<Rightarrow> if a = [] then lit ''Answer unavailable'' else a
                  | None \<Rightarrow> lit ''Answer unavailable''))
          [0..<length faqs]))"
proof (cases "faqs = []")
  case True
  then show ?thesis by (simp add: vector_formatFaqContext_def)
next
  case False
  then show ?thesis
    by (simp add: vector_formatFaqContext_def vector_CONTEXT_CHAR_LIMIT_def slice0_nonneg
        map_enumerate_nth faq_block_def falsy_or_cases)
qed

lemma index_format_example:
  "index_formatFaqContext (CONTEXT_CHAR_LIMIT None)
     [empty_obj\<lparr>question := Some (lit ''Q1''), answer := Some (lit ''A1'')\<rparr>]
   = lit ''FAQ 1:\<newline>Question: Q1\<newline>Answer: A1''"
  by (simp add: index_formatFaqContext_def CONTEXT_CHAR_LIMIT_def number_or_def empty_obj_def
      faq_block_def lit_def show_nat.simps nullish_def nullish_or_def slice0_def
      enumerate_eq_zip)

lemma vector_format_example:
  "vector_formatFaqContext
     [empty_obj\<lparr>questionEnglish := Some (lit ''Q1''), answerEnglish := Some (lit ''A1'')\<rparr>]
   = lit ''FAQ 1:\<newline>Question: Q1\<newline>Answer: A1''"
  by (simp add: vector_formatFaqContext_def vector_CONTEXT_CHAR_LIMIT_def empty_obj_def
      faq_block_def lit_def show_nat.simps falsy_or_def truthy_def slice0_def
      enumerate_eq_zip)

text \<open>
  C8, as stated, fails on the formatter of the vector strategy: it does not read the
  properties \<open>question\<close> and \<open>answer\<close>, so the FAQ \<open>{question: "Q1", answer: "A1"}\<close> is
  rendered with the two placeholders and not as \<open>"FAQ 1:\nQuestion: Q1\nAnswer: A1"\<close>.
\<close>

theorem C8_vector_formatter_counterexample:
  "vector_formatFaqContext
     [empty_obj\<lparr>question := Some (lit ''Q1''), answer := Some (lit ''A1'')\<rparr>]
   = lit ''FAQ 1:\<newline>Question: Question unavailable\<newline>Answer: Answer unavailable''
   \<and> vector_formatFaqContext
     [empty_obj\<lparr>question := Some (lit ''Q1''), answer := Some (lit ''A1'')\<rparr>]
   \<noteq> lit ''FAQ 1:\<newline>Question: Q1\<newline>Answer: A1''"
  by (simp add: vector_formatFaqContext_def vector_CONTEXT_CHAR_LIMIT_def empty_obj_def
      faq_block_def lit_def show_nat.simps falsy_or_def truthy_def slice0_def
      enumerate_eq_zip)

text \<open>
  C8, amended. Context formatting is deterministic. The formatter of \<open>index.js\<close> renders
  the single FAQ \<open>{question: "Q1", answer: "A1"}\<close> exactly as
  \<open>"FAQ 1:\nQuestion: Q1\nAnswer: A1"\<close> (default budget); the formatter of the vector
  strategy reads \<open>questionEnglish\<close> and \<open>answerEnglish\<close> only and gives that output for
  \<open>{questionEnglish: "Q1", answerEnglish: "A1"}\<close>. In both, every FAQ is rendered as a
  Question/Answer block numbered from 1 (the first present of \<open>question\<close>,
  \<open>questionEnglish\<close>, \<open>title\<close>, respectively a non-empty \<open>questionEnglish\<close>, else a
  placeholder; likewise for the answer), the blocks are joined by a blank line, and the
  whole string is cut to the character budget: the constant 2000 in the vector strategy,
  the configured budget in \<open>index.js\<close>. For a non-negative budget the output length
  never exceeds it. An empty input sequence yields the empty string.
\<close>

theorem C8_context_formatting:
  assumes "0 \<le> char_limit"
  shows
    "index_formatFaqContext (CONTEXT_CHAR_LIMIT None)
       [empty_obj\<lparr>question := Some (lit ''Q1''), answer := Some (lit ''A1'')\<rparr>]
     = lit ''FAQ 1:\<newline>Question: Q1\<newline>Answer: A1''
     \<and> vector_formatFaqContext
       [empty_obj\<lparr>questionEnglish := Some (lit ''Q1''), answerEnglish := Some (lit ''A1'')\<rparr>]
     = lit ''FAQ 1:\<newline>Question: Q1\<newline>Answer: A1''
     \<and> index_formatFaqContext char_limit faqs =
       take (nat char_limit) (join (lit ''\<newline>\<newline>'')
         (map (\<lambda>i. lit ''FAQ '' @ show_nat (i + 1) @ lit '':\<newline>Question: '' @
                 (case question (faqs ! i) of Some q \<Rightarrow> q | None \<Rightarrow>
                    (case questionEnglish (faqs ! i) of Some q \<Rightarrow> q | None \<Rightarrow>
                       (case title (faqs ! i) of Some q \<Rightarrow> q
                        | None \<Rightarrow> lit ''Question unavailable''))) @
                 lit ''\<newline>Answer: '' @
                 (case answer (faqs ! i) of Some a \<Rightarrow> a | None \<Rightarrow>
                    (case answerEnglish (faqs ! i) of Some a \<Rightarrow> a | None \<Rightarrow>
                       (case response (faqs ! i) of Some a \<Rightarrow> a
                        | None \<Rightarrow> lit ''Answer unavailable''))))
            [0..<length faqs]))
     \<and> vector_formatFaqContext faqs =
       take 2000 (join (lit ''\<newline>\<newline>'')
         (map (\<lambda>i. lit ''FAQ '' @ show_nat (i + 1) @ lit '':\<newline>Question: '' @
                 (case questionEnglish (faqs ! i) of
                    Some q \<Rightarrow> if q = [] then lit ''Question unavailable'' else q
                  | None \<Rightarrow> lit ''Question unavailable'') @
                 lit ''\<newline>Answer: '' @
                 (case answerEnglish (faqs ! i) of
                    Some a \<Rightarrow> if a = [] then lit ''Answer unavailable'' else a
                  | None \<Rightarrow> lit ''Answer unavailable''))
            [0..<length faqs]))
     \<and> int (length (index_formatFaqContext char_limit faqs)) \<le> char_limit
     \<and> length (vector_formatFaqContext faqs) \<le> 2000
     \<and> index_formatFaqContext char_limit [] = []
     \<and> vector_formatFaqContext [] = []"
proof -
  have "int (length (index_formatFaqContext char_limit faqs)) \<le> char_limit"
  proof (cases "faqs = []")
    case True
    then show ?thesis using assms by (simp add: index_formatFaqContext_def)
  next
    case False
    then show ?thesis using assms by (simp add: index_formatFaqContext_def length_slice0)
  qed
  moreover have "length (vector_formatFaqContext faqs) \<le> 2000"
    by (simp add: vector_format_blocks)
  moreover have "index_formatFaqContext char_limit [] = []" "vector_formatFaqContext [] = []"
    by (simp_all add: index_formatFaqContext_def vector_formatFaqContext_def)
  ultimately show ?thesis
    using index_format_example vector_format_example index_format_blocks [OF assms, of faqs]
      vector_format_blocks [of faqs]
    by blast
qed

theorem C8_context_formatting_witness:
  "(0::int) \<le> 12
   \<and> index_formatFaqContext 12
       [empty_obj\<lparr>question := Some (lit ''Q1''), answer := Some (lit ''A1'')\<rparr>,
        empty_obj\<lparr>questionHindi := Some (lit ''Q2'')\<rparr>]
     = lit ''FAQ 1:\<newline>Quest''
   \<and> int (length (index_formatFaqContext 12
       [empty_obj\<lparr>question := Some (lit ''Q1''), answer := Some (lit ''A1'')\<rparr>,
        empty_obj\<lparr>questionHindi := Some (lit ''Q2'')\<rparr>])) \<le> 12"
proof -
  have h: "(0::int) \<le> 12" by simp
  have "index_formatFaqContext 12
       [empty_obj\<lparr>question := Some (lit ''Q1''), answer := Some (lit ''A1'')\<rparr>,
        empty_obj\<lparr>questionHindi := Some (lit ''Q2'')\<rparr>]
     = lit ''FAQ 1:\<newline>Quest''"
    by (simp add: index_formatFaqContext_def empty_obj_def faq_block_def lit_def
        show_nat.simps nullish_def nullish_or_def slice0_def enumerate_eq_zip)
  moreover have "int (length (index_formatFaqContext 12
       [empty_obj\<lparr>question := Some (lit ''Q1''), answer := Some (lit ''A1'')\<rparr>,
        empty_obj\<lparr>questionHindi := Some (lit ''Q2'')\<rparr>])) \<le> 12"
    using C8_context_formatting [OF h,
      of "[empty_obj\<lparr>question := Some (lit ''Q1''), answer := Some (lit ''A1'')\<rparr>,
           empty_obj\<lparr>questionHindi := Some (lit ''Q2'')\<rparr>]"]
    by blast
  ultimately show ?thesis using h by blast
qed

section \<open>Batch embedding (C2)\<close>

lemma all_or_first_error_append:
  "all_or_first_error (xs @ ys) =
     (case all_or_first_error xs of
        Inl e \<Rightarrow> Inl e
      | Inr vs \<Rightarrow> (case all_or_first_error ys of Inl e \<Rightarrow> Inl e | Inr ws \<Rightarrow> Inr (vs @ ws)))"
proof (induction xs)
  case Nil
  show ?case by (simp split: sum.splits)
next
  case (Cons x xs)
  then show ?case by (cases x) (simp_all split: sum.splits)
qed

lemma all_or_first_error_map_Inr: "all_or_first_error (map Inr vs) = Inr vs"
  by (induction vs) simp_all

lemma all_or_first_error_Inr_iff:
  "all_or_first_error rs = Inr vs \<longleftrightarrow> rs = map Inr vs"
proof
  show "all_or_first_error rs = Inr vs \<Longrightarrow> rs = map Inr vs"
  proof (induction rs arbitrary: vs)
    case Nil
    then show ?case by simp
  next
    case (Cons r rs)
    then show ?case by (cases r) (auto split: sum.splits)
  qed
next
  show "rs = map Inr vs \<Longrightarrow> all_or_first_error rs = Inr vs"
    by (simp add: all_or_first_error_map_Inr)
qed

lemma all_or_first_error_Inl:
  "all_or_first_error rs = Inl e \<Longrightarrow> Inl e \<in> set rs"
proof (induction rs)
  case Nil
  then show ?case by simp
next
  case (Cons r rs)
  then show ?case by (cases r) (auto split: sum.splits)
qed

lemma batch_loop_closed:
  "batch_loop gen texts i acc =
     (case all_or_first_error (map gen (drop i texts)) of
        Inl e \<Rightarrow> Inl e
      | Inr ws \<Rightarrow> Inr (acc @ ws))"
proof (induction gen texts i acc rule: batch_loop.induct)
  case (1 gen texts i embeddings)
  show ?case
  proof (cases "i < length texts")
    case False
    then show ?thesis by (simp add: batch_loop.simps)
  next
    case True
    have split: "drop i texts = take batchSize (drop i texts) @ drop (i + batchSize) texts"
      by (metis append_take_drop_id drop_drop add.commute)
    show ?thesis
    proof (cases "all_or_first_error (map gen (take batchSize (drop i texts)))")
      case (Inl e)
      have "all_or_first_error (map gen (drop i texts)) = Inl e"
        by (subst split) (simp add: all_or_first_error_append Inl)
      with True Inl show ?thesis by (simp add: batch_loop.simps)
    next
      case (Inr batchResults)
      have "all_or_first_error (map gen (drop i texts)) =
          (case all_or_first_error (map gen (drop (i + batchSize) texts)) of
             Inl e \<Rightarrow> Inl e | Inr ws \<Rightarrow> Inr (batchResults @ ws))"
        by (subst split) (simp add: all_or_first_error_append Inr)
      moreover have "batch_loop gen texts i embeddings =
          batch_loop gen texts (i + batchSize) (embeddings @ batchResults)"
        using True Inr by (subst batch_loop.simps) simp
      ultimately show ?thesis
        using "1.IH" [OF True Inr] by (simp split: sum.splits)
    qed
  qed
qed

lemma generateEmbeddingsBatch_closed:
  "generateEmbeddingsBatch k ec texts = all_or_first_error (map (generateEmbedding k ec) texts)"
  by (cases "texts = []") (simp_all add: generateEmbeddingsBatch_def batch_loop_closed split: sum.splits)

text \<open>
  C2. For every list of input texts, \<open>generateEmbeddingsBatch\<close> either fails as a whole
  or returns exactly one embedding per text, the embedding at position \<open>i\<close> being the
  one generated for the text at position \<open>i\<close>, across the batches of 10. It fails only
  with the error of one of the embeddings, and whenever some embedding fails the call
  fails: there is no partial result.
\<close>

theorem C2_generateEmbeddingsBatch:
  "(case generateEmbeddingsBatch k ec texts of
      Inl e \<Rightarrow> \<exists>i<length texts. generateEmbedding k ec (texts ! i) = Inl e
    | Inr vs \<Rightarrow> length vs = length texts \<and>
               (\<forall>i<length texts. generateEmbedding k ec (texts ! i) = Inr (vs ! i)))
   \<and> ((\<exists>i<length texts. isl (generateEmbedding k ec (texts ! i))) \<longrightarrow>
        isl (generateEmbeddingsBatch k ec texts))"
proof -
  let ?gen = "generateEmbedding k ec"
  have inr: "length vs = length texts \<and> (\<forall>i<length texts. ?gen (texts ! i) = Inr (vs ! i))"
    if "generateEmbeddingsBatch k ec texts = Inr vs" for vs
  proof -
    from that have eq: "map ?gen texts = map Inr vs"
      by (simp add: generateEmbeddingsBatch_closed all_or_first_error_Inr_iff)
    then have len: "length vs = length texts" by (metis length_map)
    moreover have "?gen (texts ! i) = Inr (vs ! i)" if "i < length texts" for i
      using that len eq by (metis nth_map)
    ultimately show ?thesis by blast
  qed
  have inl: "\<exists>i<length texts. ?gen (texts ! i) = Inl e"
    if "generateEmbeddingsBatch k ec texts = Inl e" for e
  proof -
    from that have "Inl e \<in> set (map ?gen texts)"
      using all_or_first_error_Inl [of "map ?gen texts" e]
      by (simp only: generateEmbeddingsBatch_closed)
    then show ?thesis by (auto simp: in_set_conv_nth)
  qed
  have fail: "isl (generateEmbeddingsBatch k ec texts)"
    if "\<exists>i<length texts. isl (?gen (texts ! i))"
  proof (cases "generateEmbeddingsBatch k ec texts")
    case (Inl e)
    then show ?thesis by simp
  next
    case (Inr vs)
    from inr [OF Inr] that show ?thesis by auto
  qed
  show ?thesis using inr inl fail by (auto split: sum.splits)
qed

text \<open>
  Eleven texts, so two batches: with a provider that answers every text, the eleven
  embeddings come back in input order; when the provider rejects the eleventh text, the
  whole call fails.
\<close>

theorem C2_generateEmbeddingsBatch_witness:
  "generateEmbeddingsBatch (Some (lit ''key'')) (\<lambda>t. Values (map of_nat t))
       (map (\<lambda>n. [97 + n]) [0..<11])
     = Inr (map (\<lambda>n. [97 + of_nat n]) [0..<11])
   \<and> length (projr (generateEmbeddingsBatch (Some (lit ''key'')) (\<lambda>t. Values (map of_nat t))
       (map (\<lambda>n. [97 + n]) [0..<11]))) = 11
   \<and> isl (generateEmbedding (Some (lit ''key''))
            (\<lambda>t. if t = [107] then CallThrows else Values (map of_nat t))
            (map (\<lambda>n. [97 + n]) [0..<11] ! 10))
   \<and> isl (generateEmbeddingsBatch (Some (lit ''key''))
            (\<lambda>t. if t = [107] then CallThrows else Values (map of_nat t))
            (map (\<lambda>n. [97 + n]) [0..<11]))"
proof -
  let ?texts = "map (\<lambda>n. [97 + n]) [0..<11] :: jsstring list"
  let ?ok = "\<lambda>t :: jsstring. Values (map of_nat t)"
  let ?bad = "\<lambda>t :: jsstring. if t = [107] then CallThrows else Values (map of_nat t)"
  have run: "generateEmbeddingsBatch (Some (lit ''key'')) ?ok ?texts
      = Inr (map (\<lambda>n. [97 + of_nat n]) [0..<11])"
    by (simp add: generateEmbeddingsBatch_def batch_loop.simps batchSize_def
        generateEmbedding_def truthy_def trim_def is_ws_def lit_def upt_rec)
  have len: "length (projr (generateEmbeddingsBatch (Some (lit ''key'')) ?ok ?texts)) = 11"
    using C2_generateEmbeddingsBatch [where k = "Some (lit ''key'')" and ec = ?ok and texts = ?texts] run by simp
  have bad: "isl (generateEmbedding (Some (lit ''key'')) ?bad (?texts ! 10))"
    by (simp add: generateEmbedding_def truthy_def trim_def is_ws_def lit_def upt_rec)
  then have "\<exists>i<length ?texts. isl (generateEmbedding (Some (lit ''key'')) ?bad (?texts ! i))"
    by (intro exI [of _ 10]) simp
  then have "isl (generateEmbeddingsBatch (Some (lit ''key'')) ?bad ?texts)"
    using C2_generateEmbeddingsBatch [where k = "Some (lit ''key'')" and ec = ?bad and texts = ?texts] by blast
  with run len bad show ?thesis by blast
qed

section \<open>Single embedding (C7)\<close>

text \<open>
  C7, as stated, fails: \<open>generateEmbedding\<close> never looks at the configured dimension
  (3072 unless \<open>FAQ_EMBEDDING_DIMENSIONS\<close> says otherwise). With a provider that answers
  vectors of 768 components, the size the README states, it returns such a vector.
\<close>

theorem C7_dimension_counterexample:
  "generateEmbedding (Some (lit ''key'')) (\<lambda>t. Values (replicate 768 0)) (lit ''hello'')
     = Inr (replicate 768 0)
   \<and> int (length (replicate 768 (0 :: rat))) \<noteq> EMBEDDING_DIMENSIONS None"
  by (simp add: generateEmbedding_def truthy_def trim_def is_ws_def lit_def
      EMBEDDING_DIMENSIONS_def number_or_def)

lemma trim_Nil [simp]: "trim [] = []"
  by (simp add: trim_def)

lemma generateEmbedding_Inr_iff:
  "generateEmbedding k ec t = Inr v \<longleftrightarrow>
     (\<exists>key. k = Some key \<and> trim key \<noteq> [] \<and> trim t \<noteq> [] \<and> ec t = Values v \<and> v \<noteq> [])"
proof (cases k)
  case None
  then show ?thesis by (simp add: generateEmbedding_def truthy_def)
next
  case (Some key)
  show ?thesis
  proof (cases "key = [] \<or> trim key = [] \<or> trim t = []")
    case True
    then show ?thesis using Some
      by (auto simp add: generateEmbedding_def truthy_def)
  next
    case False
    then have "t \<noteq> []" by auto
    with False Some show ?thesis
      by (cases "ec t") (auto simp add: generateEmbedding_def truthy_def)
  qed
qed

lemma generateEmbedding_fails:
  "isl (generateEmbedding k ec t) \<longleftrightarrow>
     \<not> (\<exists>key v. k = Some key \<and> trim key \<noteq> [] \<and> trim t \<noteq> [] \<and> ec t = Values v \<and> v \<noteq> [])"
proof (cases "generateEmbedding k ec t")
  case (Inl e)
  then show ?thesis using generateEmbedding_Inr_iff [of k ec t] by auto
next
  case (Inr v)
  then show ?thesis using generateEmbedding_Inr_iff [of k ec t v] by auto
qed

text \<open>
  C7, amended. \<open>generateEmbedding\<close> returns a vector exactly when the credential is
  present and not blank, the text is not empty after trimming, and the provider answers
  a non-empty array; the vector returned is then the provider's array, of whatever
  length the provider produced (it is not compared with the configured dimension). It
  fails whenever the credential is absent, empty or blank, whenever the text is empty or
  white space only, and whenever the remote call throws or returns an absent, non-array
  or empty vector.
\<close>

theorem C7_generateEmbedding:
  "(generateEmbedding k ec t = Inr v \<longleftrightarrow>
      (\<exists>key. k = Some key \<and> trim key \<noteq> [] \<and> trim t \<noteq> [] \<and> ec t = Values v \<and> v \<noteq> []))
   \<and> (k = None \<or> k = Some [] \<longrightarrow> isl (generateEmbedding k ec t))
   \<and> (\<forall>key. k = Some key \<and> trim key = [] \<longrightarrow> isl (generateEmbedding k ec t))
   \<and> (trim t = [] \<longrightarrow> isl (generateEmbedding k ec t))
   \<and> (ec t \<in> {CallThrows, NoValues, NotAnArray, Values []} \<longrightarrow>
        isl (generateEmbedding k ec t))"
proof -
  have "k = None \<or> k = Some [] \<longrightarrow> isl (generateEmbedding k ec t)"
    by (auto simp: generateEmbedding_fails)
  moreover have "\<forall>key. k = Some key \<and> trim key = [] \<longrightarrow> isl (generateEmbedding k ec t)"
    by (auto simp: generateEmbedding_fails)
  moreover have "trim t = [] \<longrightarrow> isl (generateEmbedding k ec t)"
    by (auto simp: generateEmbedding_fails)
  moreover have "ec t \<in> {CallThrows, NoValues, NotAnArray, Values []} \<longrightarrow>
      isl (generateEmbedding k ec t)"
    by (auto simp: generateEmbedding_fails)
  ultimately show ?thesis using generateEmbedding_Inr_iff [of k ec t v] by blast
qed

theorem C7_generateEmbedding_witness:
  "generateEmbedding (Some (lit ''key'')) (\<lambda>t. Values [1, 2]) (lit ''hi'') = Inr [1, 2]
   \<and> isl (generateEmbedding None (\<lambda>t. Values [1, 2]) (lit ''hi''))
   \<and> isl (generateEmbedding (Some (lit ''  '')) (\<lambda>t. Values [1, 2]) (lit ''hi''))
   \<and> isl (generateEmbedding (Some (lit ''key'')) (\<lambda>t. Values [1, 2]) (lit ''  ''))
   \<and> isl (generateEmbedding (Some (lit ''key'')) (\<lambda>t. Values []) (lit ''hi''))"
proof -
  have ws: "trim (lit ''  '') = []"
    and nws: "trim (lit ''key'') \<noteq> []" "trim (lit ''hi'') \<noteq> []"
    by (simp_all add: trim_def is_ws_def lit_def)
  have "generateEmbedding (Some (lit ''key'')) (\<lambda>t. Values [1, 2]) (lit ''hi'') = Inr [1, 2]"
    using C7_generateEmbedding [where k = "Some (lit ''key'')" and ec = "\<lambda>t. Values [1, 2]"
        and t = "lit ''hi''" and v = "[1, 2]"] nws
    by blast
  moreover have "isl (generateEmbedding None (\<lambda>t. Values [1, 2]) (lit ''hi''))"
    using C7_generateEmbedding [where k = None and ec = "\<lambda>t. Values [1, 2]"
        and t = "lit ''hi''" and v = "[]"]
    by blast
  moreover have "isl (generateEmbedding (Some (lit ''  '')) (\<lambda>t. Values [1, 2]) (lit ''hi''))"
    using C7_generateEmbedding [where k = "Some (lit ''  '')" and ec = "\<lambda>t. Values [1, 2]"
        and t = "lit ''hi''" and v = "[]"] ws
    by blast
  moreover have "isl (generateEmbedding (Some (lit ''key'')) (\<lambda>t. Values [1, 2]) (lit ''  ''))"
    using C7_generateEmbedding [where k = "Some (lit ''key'')" and ec = "\<lambda>t. Values [1, 2]"
        and t = "lit ''  ''" and v = "[]"] ws
    by blast
  moreover have "isl (generateEmbedding (Some (lit ''key'')) (\<lambda>t. Values []) (lit ''hi''))"
    using C7_generateEmbedding [where k = "Some (lit ''key'')" and ec = "\<lambda>t. Values []"
        and t = "lit ''hi''" and v = "[]"]
    by blast
  ultimately show ?thesis by blast
qed

section \<open>Point ids (C1)\<close>












section \<open>The sync run\<close>

lemma all_or_first_error_isl:
  "\<exists>r\<in>set rs. isl r \<Longrightarrow> isl (all_or_first_error rs)"
proof (induction rs)
  case Nil
  then show ?case by simp
next
  case (Cons r rs)
  then show ?case by (cases r) (auto split: sum.splits)
qed

lemma ensureCollection_frame:
  "points (snd (ensureCollection c dims db)) = points db"
  "upsertPoints_invocations (snd (ensureCollection c dims db)) = upsertPoints_invocations db"
  by (simp_all add: ensureCollection_def)

lemma ensureCollection_existing:
  "list_ex (\<lambda>col. fst col = c) (collections db) \<Longrightarrow> snd (ensureCollection c dims db) = db"
  by (simp add: ensureCollection_def)

lemma ensureCollection_failed:
  "isl (fst (ensureCollection c dims db)) \<Longrightarrow> snd (ensureCollection c dims db) = db"
  by (simp add: ensureCollection_def split: if_splits)

lemma ensureCollection_created:
  "\<not> list_ex (\<lambda>col. fst col = c) (collections db) \<Longrightarrow> fst (ensureCollection c dims db) = Inr ()
   \<Longrightarrow> collections (snd (ensureCollection c dims db)) = collections db @ [(c, EMBEDDING_DIMENSIONS dims)]"
  by (simp add: ensureCollection_def split: if_splits)

lemma syncFaqs_with_ensure_fails:
  "isl (fst (ensureCollection c dims db)) \<Longrightarrow>
   syncFaqs_with stage c dims url source db = (Inl (projl (fst (ensureCollection c dims db))), db)"
  by (simp add: syncFaqs_with_def ensureCollection_def split: if_splits)

lemma syncFaqs_with_no_records:
  assumes "fst (ensureCollection c dims db) = Inr ()" and "sync_fetchFaqs url source = Inr []"
  shows "syncFaqs_with stage c dims url source db =
     (Inr \<lparr>synced = 0, updated = 0, errors = 0\<rparr>, snd (ensureCollection c dims db))"
proof -
  obtain db1 where "ensureCollection c dims db = (Inr (), db1)"
    using assms(1) by (cases "ensureCollection c dims db") auto
  then show ?thesis using assms(2) by (simp add: syncFaqs_with_def)
qed

subsection \<open>A run on an empty source (C5)\<close>

text \<open>
  C5, as stated, fails: \<open>syncFaqs\<close> runs \<open>ensureCollection\<close> before it fetches. On a
  database without the collection, a run whose source returns an empty list reports
  \<open>{synced: 0, updated: 0, errors: 0}\<close> and leaves the collection \<open>faq_embeddings\<close>
  created behind it.
\<close>

theorem C5_collection_created_counterexample:
  "fst (syncFaqs (Some (lit ''key'')) (\<lambda>t. CallThrows) (lit ''faq_embeddings'') None
          (Some (lit ''http://localhost:3002/faqs'')) (HttpArray []) fresh_db)
     = Inr \<lparr>synced = 0, updated = 0, errors = 0\<rparr>
   \<and> collections fresh_db = []
   \<and> collections (snd (syncFaqs (Some (lit ''key'')) (\<lambda>t. CallThrows) (lit ''faq_embeddings'') None
          (Some (lit ''http://localhost:3002/faqs'')) (HttpArray []) fresh_db))
     = [(lit ''faq_embeddings'', 3072)]"
  by (simp add: syncFaqs_def syncFaqs_with_def ensureCollection_def fresh_db_def
      sync_fetchFaqs_def truthy_def lit_def EMBEDDING_DIMENSIONS_def number_or_def)

text \<open>
  C5, amended. A sync run whose source fetch yields zero records first runs
  \<open>ensureCollection\<close>: if that step fails the run fails, otherwise the run returns exactly
  \<open>{synced: 0, updated: 0, errors: 0}\<close>. In both cases it does not call \<open>upsertPoints\<close>
  and leaves the stored points as they were. When the collection exists the database is
  left exactly as it was; when it does not exist (and the step succeeds) the only change
  is that the collection has been created.
\<close>

theorem C5_empty_source:
  assumes "sync_fetchFaqs url source = Inr []"
  shows "(fst (ensureCollection c dims db) = Inr () \<longrightarrow>
            fst (syncFaqs_with stage c dims url source db)
              = Inr \<lparr>synced = 0, updated = 0, errors = 0\<rparr>)
     \<and> (isl (fst (ensureCollection c dims db)) \<longrightarrow>
            isl (fst (syncFaqs_with stage c dims url source db)))
     \<and> upsertPoints_invocations (snd (syncFaqs_with stage c dims url source db))
          = upsertPoints_invocations db
     \<and> points (snd (syncFaqs_with stage c dims url source db)) = points db
     \<and> (list_ex (\<lambda>col. fst col = c) (collections db) \<longrightarrow>
            snd (syncFaqs_with stage c dims url source db) = db)
     \<and> (\<not> list_ex (\<lambda>col. fst col = c) (collections db)
          \<and> fst (ensureCollection c dims db) = Inr () \<longrightarrow>
            collections (snd (syncFaqs_with stage c dims url source db))
              = collections db @ [(c, EMBEDDING_DIMENSIONS dims)])"
proof (cases "fst (ensureCollection c dims db)")
  case (Inl e)
  then have "isl (fst (ensureCollection c dims db))" by simp
  from syncFaqs_with_ensure_fails [OF this, of stage url source] Inl
  show ?thesis by simp
next
  case (Inr u)
  then have ok: "fst (ensureCollection c dims db) = Inr ()" by simp
  from syncFaqs_with_no_records [OF ok assms, of stage] ok
  show ?thesis
    by (simp add: ensureCollection_frame ensureCollection_existing ensureCollection_created)
qed

theorem C5_empty_source_witness:
  "sync_fetchFaqs (Some (lit ''http://localhost:3002/faqs'')) (HttpArray []) = Inr []
   \<and> fst (syncFaqs_with (\<lambda>texts. Inr []) (lit ''faq_embeddings'') None
          (Some (lit ''http://localhost:3002/faqs'')) (HttpArray [])
          (fresh_db\<lparr>collections := [(lit ''faq_embeddings'', 3072)]\<rparr>))
     = Inr \<lparr>synced = 0, updated = 0, errors = 0\<rparr>
   \<and> snd (syncFaqs_with (\<lambda>texts. Inr []) (lit ''faq_embeddings'') None
          (Some (lit ''http://localhost:3002/faqs'')) (HttpArray [])
          (fresh_db\<lparr>collections := [(lit ''faq_embeddings'', 3072)]\<rparr>))
     = fresh_db\<lparr>collections := [(lit ''faq_embeddings'', 3072)]\<rparr>"
proof -
  let ?db = "fresh_db\<lparr>collections := [(lit ''faq_embeddings'', 3072)]\<rparr>"
  have fetch: "sync_fetchFaqs (Some (lit ''http://localhost:3002/faqs'')) (HttpArray []) = Inr []"
    by (simp add: sync_fetchFaqs_def truthy_def lit_def)
  have ens: "fst (ensureCollection (lit ''faq_embeddings'') None ?db) = Inr ()"
    and ex: "list_ex (\<lambda>col. fst col = lit ''faq_embeddings'') (collections ?db)"
    by (simp_all add: ensureCollection_def fresh_db_def)
  show ?thesis
    using C5_empty_source [OF fetch, where c = "lit ''faq_embeddings''" and dims = None
        and db = ?db and stage = "\<lambda>texts. Inr []"] fetch ens ex
    by blast
qed

subsection \<open>A mismatch of the embedding count (C3)\<close>





subsection \<open>A record without any text (C10)\<close>

lemma combineFaqText_all_empty:
  assumes "\<not> truthy (questionEnglish f)" "\<not> truthy (answerEnglish f)"
    "\<not> truthy (questionHindi f)" "\<not> truthy (answerHindi f)"
  shows "combineFaqText f = []"
  using assms by (simp add: combineFaqText_def)

lemma buildFaqData_texts:
  "all_or_first_error (map buildFaqData faqs) = Inr faqData \<Longrightarrow>
   map d_text faqData = map combineFaqText faqs"
proof (induction faqs arbitrary: faqData)
  case Nil
  then show ?case by simp
next
  case (Cons g faqs)
  then show ?case
    by (cases "buildFaqData g")
       (auto simp: buildFaqData_def split: sum.splits)
qed

lemma generateEmbedding_empty_text: "isl (generateEmbedding k ec [])"
  by (simp add: generateEmbedding_def)

lemma syncFaqs_with_build_fails:
  assumes "fst (ensureCollection c dims db) = Inr ()"
    and "sync_fetchFaqs url source = Inr faqs" and "faqs \<noteq> []"
    and "all_or_first_error (map buildFaqData faqs) = Inl e"
  shows "syncFaqs_with stage c dims url source db = (Inl e, snd (ensureCollection c dims db))"
proof -
  obtain db1 where "ensureCollection c dims db = (Inr (), db1)"
    using assms(1) by (cases "ensureCollection c dims db") auto
  then show ?thesis using assms(2-) by (simp add: syncFaqs_with_def)
qed

lemma syncFaqs_with_stage_fails:
  assumes "fst (ensureCollection c dims db) = Inr ()"
    and "sync_fetchFaqs url source = Inr faqs" and "faqs \<noteq> []"
    and "all_or_first_error (map buildFaqData faqs) = Inr faqData"
    and "stage (map d_text faqData) = Inl e"
  shows "syncFaqs_with stage c dims url source db = (Inl e, snd (ensureCollection c dims db))"
proof -
  obtain db1 where "ensureCollection c dims db = (Inr (), db1)"
    using assms(1) by (cases "ensureCollection c dims db") auto
  then show ?thesis using assms(2-) by (simp add: syncFaqs_with_def)
qed

text \<open>
  C10. If the fetched list contains a record with a valid id whose \<open>questionEnglish\<close>,
  \<open>answerEnglish\<close>, \<open>questionHindi\<close> and \<open>answerHindi\<close> are all absent or empty, then the
  record's combined text is the empty string, \<open>generateEmbedding\<close> rejects that text, and
  the whole run fails without calling \<open>upsertPoints\<close> and without writing a point: the
  record is not skipped.
\<close>

theorem C10_empty_text_aborts:
  assumes "sync_fetchFaqs url source = Inr faqs" and "f \<in> set faqs"
    and "getFaqId f = Inr fid"
    and "\<not> truthy (questionEnglish f)" "\<not> truthy (answerEnglish f)"
      "\<not> truthy (questionHindi f)" "\<not> truthy (answerHindi f)"
  shows "combineFaqText f = []
     \<and> isl (generateEmbedding k ec (combineFaqText f))
     \<and> isl (fst (syncFaqs k ec c dims url source db))
     \<and> upsertPoints_invocations (snd (syncFaqs k ec c dims url source db))
          = upsertPoints_invocations db
     \<and> points (snd (syncFaqs k ec c dims url source db)) = points db"
proof -
  let ?stage = "generateEmbeddingsBatch k ec"
  let ?run = "syncFaqs_with ?stage c dims url source db"
  have combined: "combineFaqText f = []"
    using assms(4-7) by (rule combineFaqText_all_empty)
  have ne: "faqs \<noteq> []" using assms(2) by auto
  have run: "isl (fst ?run) \<and> snd ?run = snd (ensureCollection c dims db)"
  proof (cases "fst (ensureCollection c dims db)")
    case (Inl e)
    then have "isl (fst (ensureCollection c dims db))" by simp
    from syncFaqs_with_ensure_fails [OF this, of ?stage url source]
      ensureCollection_failed [OF this]
    show ?thesis by simp
  next
    case (Inr u)
    then have ok: "fst (ensureCollection c dims db) = Inr ()" by simp
    show ?thesis
    proof (cases "all_or_first_error (map buildFaqData faqs)")
      case (Inl e)
      from syncFaqs_with_build_fails [OF ok assms(1) ne Inl, of ?stage]
      show ?thesis by simp
    next
      case (Inr faqData)
      have "[] \<in> set (map combineFaqText faqs)" using assms(2) combined by force
      then have "\<exists>r\<in>set (map (generateEmbedding k ec) (map d_text faqData)). isl r"
        using buildFaqData_texts [OF Inr] generateEmbedding_empty_text [of k ec] by force
      then have "isl (?stage (map d_text faqData))"
        by (simp only: generateEmbeddingsBatch_closed all_or_first_error_isl)
      then obtain e where "?stage (map d_text faqData) = Inl e"
        by (cases "?stage (map d_text faqData)") auto
      from syncFaqs_with_stage_fails [where stage = ?stage, OF ok assms(1) ne Inr this]
      show ?thesis by simp
    qed
  qed
  then show ?thesis
    using combined generateEmbedding_empty_text [of k ec]
    by (simp add: syncFaqs_def ensureCollection_frame)
qed

theorem C10_empty_text_aborts_witness:
  "fst (syncFaqs (Some (lit ''key'')) (\<lambda>t. Values [1]) (lit ''faq_embeddings'') None
          (Some (lit ''http://localhost:3002/faqs''))
          (HttpArray [empty_obj\<lparr>faq_id := NumId 1, questionEnglish := Some (lit ''q'')\<rparr>,
                      empty_obj\<lparr>faq_id := NumId 2, answerHindi := Some []\<rparr>])
          fresh_db)
     = Inl TextNotNonEmpty
   \<and> points (snd (syncFaqs (Some (lit ''key'')) (\<lambda>t. Values [1]) (lit ''faq_embeddings'') None
          (Some (lit ''http://localhost:3002/faqs''))
          (HttpArray [empty_obj\<lparr>faq_id := NumId 1, questionEnglish := Some (lit ''q'')\<rparr>,
                      empty_obj\<lparr>faq_id := NumId 2, answerHindi := Some []\<rparr>])
          fresh_db)) = points fresh_db
   \<and> upsertPoints_invocations (snd (syncFaqs (Some (lit ''key'')) (\<lambda>t. Values [1])
          (lit ''faq_embeddings'') None (Some (lit ''http://localhost:3002/faqs''))
          (HttpArray [empty_obj\<lparr>faq_id := NumId 1, questionEnglish := Some (lit ''q'')\<rparr>,
                      empty_obj\<lparr>faq_id := NumId 2, answerHindi := Some []\<rparr>])
          fresh_db)) = upsertPoints_invocations fresh_db"
proof -
  let ?f = "empty_obj\<lparr>faq_id := NumId 2, answerHindi := Some []\<rparr>"
  let ?faqs = "[empty_obj\<lparr>faq_id := NumId 1, questionEnglish := Some (lit ''q'')\<rparr>, ?f]"
  have fetch: "sync_fetchFaqs (Some (lit ''http://localhost:3002/faqs'')) (HttpArray ?faqs)
      = Inr ?faqs"
    by (simp add: sync_fetchFaqs_def truthy_def lit_def)
  have mem: "?f \<in> set ?faqs" by simp
  have fid: "getFaqId ?f = Inr (lit ''2'')"
    by (simp add: getFaqId_def empty_obj_def show_int_def show_nat.simps lit_def)
  have e: "\<not> truthy (questionEnglish ?f)" "\<not> truthy (answerEnglish ?f)"
    "\<not> truthy (questionHindi ?f)" "\<not> truthy (answerHindi ?f)"
    by (simp_all add: truthy_def empty_obj_def)
  have run: "fst (syncFaqs (Some (lit ''key'')) (\<lambda>t. Values [1]) (lit ''faq_embeddings'') None
          (Some (lit ''http://localhost:3002/faqs'')) (HttpArray ?faqs) fresh_db)
     = Inl TextNotNonEmpty"
    by (simp add: syncFaqs_def syncFaqs_with_def ensureCollection_def fresh_db_def
        sync_fetchFaqs_def truthy_def lit_def buildFaqData_def getFaqId_def empty_obj_def
        show_int_def show_nat.simps falsy_or_def combineFaqText_def trim_def is_ws_def
        generateEmbeddingsBatch_def batch_loop.simps batchSize_def generateEmbedding_def)
  show ?thesis
    using C10_empty_text_aborts [OF fetch mem fid e, where k = "Some (lit ''key'')"
        and ec = "\<lambda>t. Values [1]" and c = "lit ''faq_embeddings''" and dims = None
        and db = fresh_db] run
    by blast
qed

section \<open>Retrieval with the vector strategy (C4)\<close>

lemma generateEmbedding_response_fails:
  "ec t \<in> {CallThrows, NoValues, NotAnArray, Values []} \<Longrightarrow> isl (generateEmbedding k ec t)"
  by (simp add: generateEmbedding_fails) auto

lemma client_search_below:
  "\<forall>h\<in>set (nearest db v). hit_score h < thr \<Longrightarrow> client_search db v limit thr = []"
  by (simp add: client_search_def filter_empty_conv not_le)

lemma vector_getFaqContext_not_string:
  "query = None \<or> query = Some [] \<or> (\<exists>q. query = Some q \<and> trim q = []) \<Longrightarrow>
   vector_getFaqContext k ec c db query = Inr None"
  by (auto simp: vector_getFaqContext_def truthy_def)

lemma vector_getFaqContext_body:
  "query = Some q \<Longrightarrow> trim q \<noteq> [] \<Longrightarrow>
   vector_getFaqContext k ec c db query =
     (case try_body k ec c db q of Inl e \<Rightarrow> Inr None | Inr r \<Rightarrow> Inr r)"
  by (auto simp: vector_getFaqContext_def truthy_def)

lemma vector_getFaqContext_total: "\<not> isl (vector_getFaqContext k ec c db query)"
  by (simp add: vector_getFaqContext_def split: sum.splits)

text \<open>
  C4. \<open>getFaqContext\<close> of the vector strategy never propagates an exception: it always
  returns. It returns \<open>null\<close> for a query that is not a string, is empty or is white
  space only; when the query embedding fails (also because the provider throws or
  answers an absent, non-array or empty vector); when the vector search throws; and when
  the search result is empty, in particular when every stored point scores below the
  threshold. Otherwise it returns the formatted context of the search results.
\<close>

theorem C4_getFaqContext_never_raises:
  "\<not> isl (vector_getFaqContext k ec c db query)
   \<and> (query = None \<or> query = Some [] \<or> (\<exists>q. query = Some q \<and> trim q = []) \<longrightarrow>
        vector_getFaqContext k ec c db query = Inr None)
   \<and> (\<forall>q. query = Some q \<and> isl (generateEmbedding k ec (trim q)) \<longrightarrow>
        vector_getFaqContext k ec c db query = Inr None)
   \<and> (\<forall>q. query = Some q \<and> ec (trim q) \<in> {CallThrows, NoValues, NotAnArray, Values []} \<longrightarrow>
        vector_getFaqContext k ec c db query = Inr None)
   \<and> (\<forall>q v. query = Some q \<and> generateEmbedding k ec (trim q) = Inr v
          \<and> (rejects db (Search c v vector_DEFAULT_LIMIT SCORE_THRESHOLD)
              \<or> isl (searchVectors c db v vector_DEFAULT_LIMIT SCORE_THRESHOLD)) \<longrightarrow>
        vector_getFaqContext k ec c db query = Inr None)
   \<and> (\<forall>q v. query = Some q \<and> generateEmbedding k ec (trim q) = Inr v
          \<and> (searchVectors c db v vector_DEFAULT_LIMIT SCORE_THRESHOLD = Inr []
              \<or> (\<forall>h\<in>set (nearest db v). hit_score h < SCORE_THRESHOLD)) \<longrightarrow>
        vector_getFaqContext k ec c db query = Inr None)
   \<and> (\<forall>q v faqs. query = Some q \<and> trim q \<noteq> [] \<and> generateEmbedding k ec (trim q) = Inr v
          \<and> searchVectors c db v vector_DEFAULT_LIMIT SCORE_THRESHOLD = Inr faqs \<and> faqs \<noteq> [] \<longrightarrow>
        vector_getFaqContext k ec c db query = Inr (Some (vector_formatFaqContext faqs)))"
proof -
  have embed: "vector_getFaqContext k ec c db query = Inr None"
    if "query = Some q" "isl (generateEmbedding k ec (trim q))" for q
  proof (cases "trim q = []")
    case True
    with that(1) show ?thesis by (simp add: vector_getFaqContext_not_string)
  next
    case False
    from that(2) obtain e where "generateEmbedding k ec (trim q) = Inl e"
      by (cases "generateEmbedding k ec (trim q)") auto
    then show ?thesis
      by (simp add: vector_getFaqContext_body [OF that(1) False] try_body_def)
  qed
  have resp: "vector_getFaqContext k ec c db query = Inr None"
    if "query = Some q" "ec (trim q) \<in> {CallThrows, NoValues, NotAnArray, Values []}" for q
  proof -
    have "isl (generateEmbedding k ec (trim q))"
      using that(2) by (rule generateEmbedding_response_fails)
    then show ?thesis using that(1) by (rule embed [rotated])
  qed
  have search: "vector_getFaqContext k ec c db query = Inr None"
    if "query = Some q" "generateEmbedding k ec (trim q) = Inr v"
      "rejects db (Search c v vector_DEFAULT_LIMIT SCORE_THRESHOLD)
       \<or> isl (searchVectors c db v vector_DEFAULT_LIMIT SCORE_THRESHOLD)
       \<or> searchVectors c db v vector_DEFAULT_LIMIT SCORE_THRESHOLD = Inr []
       \<or> (\<forall>h\<in>set (nearest db v). hit_score h < SCORE_THRESHOLD)" for q v
  proof -
    from that(2) have ne: "trim q \<noteq> []" "v \<noteq> []"
      by (auto simp: generateEmbedding_Inr_iff)
    have "isl (searchVectors c db v vector_DEFAULT_LIMIT SCORE_THRESHOLD)
        \<or> searchVectors c db v vector_DEFAULT_LIMIT SCORE_THRESHOLD = Inr []"
      using that(3) by (auto simp: searchVectors_def client_search_below)
    then show ?thesis
      using that(2) ne
      by (cases "searchVectors c db v vector_DEFAULT_LIMIT SCORE_THRESHOLD")
         (auto simp: vector_getFaqContext_body [OF that(1) ne(1)] try_body_def)
  qed
  have found: "vector_getFaqContext k ec c db query = Inr (Some (vector_formatFaqContext faqs))"
    if "query = Some q" "trim q \<noteq> []" "generateEmbedding k ec (trim q) = Inr v"
      "searchVectors c db v vector_DEFAULT_LIMIT SCORE_THRESHOLD = Inr faqs" "faqs \<noteq> []"
    for q v faqs
  proof -
    from that(3) have "v \<noteq> []" by (auto simp: generateEmbedding_Inr_iff)
    then have "try_body k ec c db q = Inr (Some (vector_formatFaqContext faqs))"
      using that(3-5) by (simp add: try_body_def)
    then show ?thesis
      by (simp only: vector_getFaqContext_body [OF that(1,2)] sum.case)
  qed
  have c1: "\<not> isl (vector_getFaqContext k ec c db query)"
    by (rule vector_getFaqContext_total)
  have c2: "query = None \<or> query = Some [] \<or> (\<exists>q. query = Some q \<and> trim q = []) \<longrightarrow>
        vector_getFaqContext k ec c db query = Inr None"
    using vector_getFaqContext_not_string [of query k ec c db] by blast
  have c3: "\<forall>q. query = Some q \<and> isl (generateEmbedding k ec (trim q)) \<longrightarrow>
        vector_getFaqContext k ec c db query = Inr None"
    using embed by blast
  have c4: "\<forall>q. query = Some q \<and> ec (trim q) \<in> {CallThrows, NoValues, NotAnArray, Values []} \<longrightarrow>
        vector_getFaqContext k ec c db query = Inr None"
    using resp by blast
  have c5: "\<forall>q v. query = Some q \<and> generateEmbedding k ec (trim q) = Inr v
          \<and> (rejects db (Search c v vector_DEFAULT_LIMIT SCORE_THRESHOLD)
              \<or> isl (searchVectors c db v vector_DEFAULT_LIMIT SCORE_THRESHOLD)) \<longrightarrow>
        vector_getFaqContext k ec c db query = Inr None"
    using search by blast
  have c6: "\<forall>q v. query = Some q \<and> generateEmbedding k ec (trim q) = Inr v
          \<and> (searchVectors c db v vector_DEFAULT_LIMIT SCORE_THRESHOLD = Inr []
              \<or> (\<forall>h\<in>set (nearest db v). hit_score h < SCORE_THRESHOLD)) \<longrightarrow>
        vector_getFaqContext k ec c db query = Inr None"
    using search by blast
  have c7: "\<forall>q v faqs. query = Some q \<and> trim q \<noteq> [] \<and> generateEmbedding k ec (trim q) = Inr v
          \<and> searchVectors c db v vector_DEFAULT_LIMIT SCORE_THRESHOLD = Inr faqs \<and> faqs \<noteq> [] \<longrightarrow>
        vector_getFaqContext k ec c db query = Inr (Some (vector_formatFaqContext faqs))"
    using found by blast
  show ?thesis by (intro conjI c1 c2 c3 c4 c5 c6 c7)
qed

theorem C4_getFaqContext_never_raises_witness:
  "vector_getFaqContext (Some (lit ''key'')) (\<lambda>t. Values [1]) (lit ''faq_embeddings'')
      (fresh_db\<lparr>nearest := (\<lambda>v.
         [\<lparr>hit_id = 1, hit_score = 3 / 4,
           hit_payload = Some (empty_obj\<lparr>questionEnglish := Some (lit ''Q1''),
                                           answerEnglish := Some (lit ''A1'')\<rparr>)\<rparr>,
          \<lparr>hit_id = 2, hit_score = 1 / 4, hit_payload = None\<rparr>])\<rparr>)
      (Some (lit '' hello ''))
     = Inr (Some (lit ''FAQ 1:\<newline>Question: Q1\<newline>Answer: A1''))
   \<and> vector_getFaqContext (Some (lit ''key'')) (\<lambda>t. Values [1]) (lit ''faq_embeddings'')
      fresh_db (Some (lit ''   '')) = Inr None
   \<and> vector_getFaqContext None (\<lambda>t. Values [1]) (lit ''faq_embeddings'')
      fresh_db (Some (lit '' hello '')) = Inr None
   \<and> vector_getFaqContext (Some (lit ''key'')) (\<lambda>t. Values [1]) (lit ''faq_embeddings'')
      (fresh_db\<lparr>nearest := (\<lambda>v. [\<lparr>hit_id = 2, hit_score = 1 / 4, hit_payload = None\<rparr>])\<rparr>)
      (Some (lit '' hello '')) = Inr None"
proof -
  let ?k = "Some (lit ''key'')"
  let ?ec = "\<lambda>t :: jsstring. Values [1]"
  let ?c = "lit ''faq_embeddings''"
  let ?q = "lit '' hello ''"
  let ?hit = "\<lparr>hit_id = 1, hit_score = 3 / 4,
     hit_payload = Some (empty_obj\<lparr>questionEnglish := Some (lit ''Q1''),
                                     answerEnglish := Some (lit ''A1'')\<rparr>)\<rparr>"
  let ?low = "\<lparr>hit_id = 2, hit_score = 1 / 4, hit_payload = None\<rparr>"
  let ?db = "fresh_db\<lparr>nearest := (\<lambda>v. [?hit, ?low])\<rparr>"
  let ?db' = "fresh_db\<lparr>nearest := (\<lambda>v. [?low])\<rparr>"
  let ?faqs = "[empty_obj\<lparr>questionEnglish := Some (lit ''Q1''), answerEnglish := Some (lit ''A1''),
     faqId := Some 1, score := Some (3 / 4)\<rparr>]"
  have tq: "trim ?q \<noteq> []" and tb: "trim (lit ''   '') = []"
    by (simp_all add: trim_def is_ws_def lit_def)
  have emb: "generateEmbedding ?k ?ec (trim ?q) = Inr [1]"
    by (simp add: generateEmbedding_def truthy_def trim_def is_ws_def lit_def)
  have nokey: "isl (generateEmbedding None ?ec (trim ?q))"
    by (simp add: generateEmbedding_def truthy_def)
  have srch: "searchVectors ?c ?db [1] vector_DEFAULT_LIMIT SCORE_THRESHOLD = Inr ?faqs"
    by (simp add: searchVectors_def client_search_def fresh_db_def vector_DEFAULT_LIMIT_def
        SCORE_THRESHOLD_def search_result_def empty_obj_def nullish_def)
  have low: "\<forall>h\<in>set (nearest ?db' [1]). hit_score h < SCORE_THRESHOLD"
    by (simp add: fresh_db_def SCORE_THRESHOLD_def)
  have fmt: "vector_formatFaqContext ?faqs = lit ''FAQ 1:\<newline>Question: Q1\<newline>Answer: A1''"
    by (simp add: vector_formatFaqContext_def vector_CONTEXT_CHAR_LIMIT_def empty_obj_def
        faq_block_def lit_def show_nat.simps falsy_or_def truthy_def slice0_def
        enumerate_eq_zip)
  have "vector_getFaqContext ?k ?ec ?c ?db (Some ?q) = Inr (Some (vector_formatFaqContext ?faqs))"
    using C4_getFaqContext_never_raises [where k = ?k and ec = ?ec and c = ?c and db = ?db
          and query = "Some ?q", THEN conjunct2, THEN conjunct2, THEN conjunct2, THEN conjunct2,
          THEN conjunct2, THEN conjunct2, rule_format, of ?q "[1]" ?faqs] tq emb srch
    by simp
  moreover have "vector_getFaqContext ?k ?ec ?c fresh_db (Some (lit ''   '')) = Inr None"
    using C4_getFaqContext_never_raises [where k = ?k and ec = ?ec and c = ?c
          and db = fresh_db and query = "Some (lit ''   '')", THEN conjunct2, THEN conjunct1] tb
    by simp
  moreover have "vector_getFaqContext None ?ec ?c fresh_db (Some ?q) = Inr None"
    using C4_getFaqContext_never_raises [where k = None and ec = ?ec and c = ?c
          and db = fresh_db and query = "Some ?q", THEN conjunct2, THEN conjunct2,
          THEN conjunct1, rule_format, of ?q] nokey
    by simp
  moreover have "vector_getFaqContext ?k ?ec ?c ?db' (Some ?q) = Inr None"
    using C4_getFaqContext_never_raises [where k = ?k and ec = ?ec and c = ?c and db = ?db'
          and query = "Some ?q", THEN conjunct2, THEN conjunct2, THEN conjunct2, THEN conjunct2,
          THEN conjunct2, THEN conjunct1, rule_format, of ?q "[1]"] emb low
    by simp
  ultimately show ?thesis by (simp only: fmt)
qed

section \<open>The cached fetch (C9)\<close>

lemma index_fetchFaqs_cached:
  "FAQ_API_URL \<noteq> [] \<Longrightarrow> cache_value cache = Some v \<Longrightarrow> now < cache_expiresAt cache \<Longrightarrow>
   index_fetchFaqs FAQ_API_URL ttl now source cache = (Inr v, cache)"
  by (simp add: index_fetchFaqs_def)

lemma index_fetchFaqs_total: "\<not> isl (fst (index_fetchFaqs FAQ_API_URL ttl now source cache))"
  by (simp add: index_fetchFaqs_def Let_def split: http_response.splits)

lemma index_fetchFaqs_fails:
  "FAQ_API_URL \<noteq> [] \<Longrightarrow>
   fst (index_fetchFaqs FAQ_API_URL ttl now HttpFails cache)
     = Inr (case cache_value cache of Some v \<Rightarrow> v | None \<Rightarrow> [])
   \<and> cache_value (snd (index_fetchFaqs FAQ_API_URL ttl now HttpFails cache)) = cache_value cache
   \<and> cache_expiresAt (snd (index_fetchFaqs FAQ_API_URL ttl now HttpFails cache))
       = cache_expiresAt cache"
  by (auto simp: index_fetchFaqs_def Let_def nullish_or_def split: option.splits)

lemma index_fetchFaqs_refresh:
  "FAQ_API_URL \<noteq> [] \<Longrightarrow> cache_value cache = None \<or> cache_expiresAt cache \<le> now \<Longrightarrow>
   index_fetchFaqs FAQ_API_URL ttl now (HttpArray data) cache
     = (Inr data, cache\<lparr>source_requests := Suc (source_requests cache),
                         cache_value := Some data, cache_expiresAt := now + ttl\<rparr>)"
  by (auto simp: index_fetchFaqs_def Let_def)

text \<open>
  C9. With a configured source URL: a fetch while the cached entry has not expired
  returns the cached value without a request to the source and leaves the cache as it
  is; so after a fetch that filled the cache at time \<open>now\<close>, a second fetch before
  \<open>now + ttl\<close> returns the identical value and makes no request, whatever the source
  would answer. A fetch never raises, and when the source fails it returns the
  previously cached value, or the empty list if there is none, and keeps the cache.
\<close>

theorem C9_cached_fetch:
  assumes "FAQ_API_URL \<noteq> []"
  shows "(cache_value cache = Some v \<and> now < cache_expiresAt cache \<longrightarrow>
            index_fetchFaqs FAQ_API_URL ttl now source cache = (Inr v, cache))
     \<and> ((cache_value cache = None \<or> cache_expiresAt cache \<le> now) \<and> now' < now + ttl \<longrightarrow>
            fst (index_fetchFaqs FAQ_API_URL ttl now (HttpArray data) cache) = Inr data
          \<and> fst (index_fetchFaqs FAQ_API_URL ttl now' source
                   (snd (index_fetchFaqs FAQ_API_URL ttl now (HttpArray data) cache))) = Inr data
          \<and> source_requests (snd (index_fetchFaqs FAQ_API_URL ttl now' source
                   (snd (index_fetchFaqs FAQ_API_URL ttl now (HttpArray data) cache))))
             = source_requests (snd (index_fetchFaqs FAQ_API_URL ttl now (HttpArray data) cache)))
     \<and> \<not> isl (fst (index_fetchFaqs FAQ_API_URL ttl now source cache))
     \<and> fst (index_fetchFaqs FAQ_API_URL ttl now HttpFails cache)
         = Inr (case cache_value cache of Some v \<Rightarrow> v | None \<Rightarrow> [])
     \<and> cache_value (snd (index_fetchFaqs FAQ_API_URL ttl now HttpFails cache)) = cache_value cache"
proof -
  have second: "fst (index_fetchFaqs FAQ_API_URL ttl now (HttpArray data) cache) = Inr data
      \<and> fst (index_fetchFaqs FAQ_API_URL ttl now' source
               (snd (index_fetchFaqs FAQ_API_URL ttl now (HttpArray data) cache))) = Inr data
      \<and> source_requests (snd (index_fetchFaqs FAQ_API_URL ttl now' source
               (snd (index_fetchFaqs FAQ_API_URL ttl now (HttpArray data) cache))))
         = source_requests (snd (index_fetchFaqs FAQ_API_URL ttl now (HttpArray data) cache))"
    if "cache_value cache = None \<or> cache_expiresAt cache \<le> now" "now' < now + ttl"
    using that assms by (simp add: index_fetchFaqs_refresh index_fetchFaqs_cached)
  show ?thesis
    using index_fetchFaqs_cached [OF assms, of cache v now ttl source] second
      index_fetchFaqs_total [of FAQ_API_URL ttl now source cache]
      index_fetchFaqs_fails [OF assms, of ttl now cache]
    by blast
qed

theorem C9_cached_fetch_witness:
  "lit ''http://localhost:3002/faqs'' \<noteq> []
   \<and> fst (index_fetchFaqs (lit ''http://localhost:3002/faqs'') 60000 1000
          (HttpArray [empty_obj\<lparr>question := Some (lit ''Q1'')\<rparr>])
          \<lparr>cache_value = None, cache_expiresAt = 0, source_requests = 0\<rparr>)
     = Inr [empty_obj\<lparr>question := Some (lit ''Q1'')\<rparr>]
   \<and> fst (index_fetchFaqs (lit ''http://localhost:3002/faqs'') 60000 2000 HttpFails
          (snd (index_fetchFaqs (lit ''http://localhost:3002/faqs'') 60000 1000
             (HttpArray [empty_obj\<lparr>question := Some (lit ''Q1'')\<rparr>])
             \<lparr>cache_value = None, cache_expiresAt = 0, source_requests = 0\<rparr>)))
     = Inr [empty_obj\<lparr>question := Some (lit ''Q1'')\<rparr>]
   \<and> fst (index_fetchFaqs (lit ''http://localhost:3002/faqs'') 60000 70000 HttpFails
          \<lparr>cache_value = Some [empty_obj\<lparr>question := Some (lit ''Q1'')\<rparr>],
           cache_expiresAt = 61000, source_requests = 1\<rparr>)
     = Inr [empty_obj\<lparr>question := Some (lit ''Q1'')\<rparr>]
   \<and> fst (index_fetchFaqs (lit ''http://localhost:3002/faqs'') 60000 1000 HttpFails
          \<lparr>cache_value = None, cache_expiresAt = 0, source_requests = 0\<rparr>)
     = Inr []"
proof -
  let ?url = "lit ''http://localhost:3002/faqs''"
  let ?data = "[empty_obj\<lparr>question := Some (lit ''Q1'')\<rparr>]"
  let ?c0 = "\<lparr>cache_value = None, cache_expiresAt = 0, source_requests = 0\<rparr>"
  let ?c1 = "\<lparr>cache_value = Some ?data, cache_expiresAt = 61000, source_requests = 1\<rparr>"
  have url: "?url \<noteq> []" by (simp add: lit_def)
  have "fst (index_fetchFaqs ?url 60000 1000 (HttpArray ?data) ?c0) = Inr ?data
      \<and> fst (index_fetchFaqs ?url 60000 2000 HttpFails
            (snd (index_fetchFaqs ?url 60000 1000 (HttpArray ?data) ?c0))) = Inr ?data"
    using C9_cached_fetch [OF url, where cache = ?c0 and now = 1000 and now' = 2000
        and ttl = 60000 and data = ?data and source = HttpFails]
    by simp
  moreover have "fst (index_fetchFaqs ?url 60000 70000 HttpFails ?c1) = Inr ?data"
    using C9_cached_fetch [OF url, where cache = ?c1 and now = 70000 and ttl = 60000]
    by simp
  moreover have "fst (index_fetchFaqs ?url 60000 1000 HttpFails ?c0) = Inr []"
    using C9_cached_fetch [OF url, where cache = ?c0 and now = 1000 and ttl = 60000]
    by simp
  ultimately show ?thesis using url by blast
qed

section \<open>Lexical selection (C6)\<close>

lemma set_insert_by: "set (insert_by cmp x xs) = insert x (set xs)"
  by (induction xs) auto

lemma distinct_map_insert_by:
  "distinct (map f (insert_by cmp x xs)) \<longleftrightarrow> f x \<notin> f ` set xs \<and> distinct (map f xs)"
  by (induction xs) (auto simp: set_insert_by)

lemma sorted_wrt_insert_by:
  assumes total: "\<And>a b. cmp a b \<le> 0 \<or> cmp b a \<le> 0"
    and trans: "\<And>a b c. cmp a b \<le> 0 \<Longrightarrow> cmp b c \<le> 0 \<Longrightarrow> cmp a c \<le> 0"
    and "sorted_wrt (\<lambda>a b. cmp a b \<le> 0) xs"
  shows "sorted_wrt (\<lambda>a b. cmp a b \<le> 0) (insert_by cmp x xs)"
  using assms(3)
proof (induction xs)
  case Nil
  then show ?case by simp
next
  case (Cons y ys)
  show ?case
  proof (cases "cmp x y \<le> 0")
    case True
    then have "\<forall>z\<in>set (y # ys). cmp x z \<le> 0"
      using Cons.prems trans by auto
    with True Cons.prems show ?thesis by simp
  next
    case False
    then have "cmp y x \<le> 0" using total [of x y] by simp
    with False Cons show ?thesis by (auto simp: set_insert_by)
  qed
qed

lemma set_js_sort: "set (js_sort cmp xs) = set xs"
  by (induction xs) (simp_all add: js_sort_def set_insert_by)

lemma distinct_map_js_sort: "distinct (map f (js_sort cmp xs)) \<longleftrightarrow> distinct (map f xs)"
proof (induction xs)
  case Nil
  show ?case by (simp add: js_sort_def)
next
  case (Cons x xs)
  have "js_sort cmp (x # xs) = insert_by cmp x (js_sort cmp xs)" by (simp add: js_sort_def)
  with Cons show ?case by (simp add: distinct_map_insert_by set_js_sort)
qed

lemma sorted_wrt_js_sort:
  assumes "\<And>a b. cmp a b \<le> 0 \<or> cmp b a \<le> 0"
    and "\<And>a b c. cmp a b \<le> 0 \<Longrightarrow> cmp b c \<le> 0 \<Longrightarrow> cmp a c \<le> 0"
  shows "sorted_wrt (\<lambda>a b. cmp a b \<le> 0) (js_sort cmp xs)"
proof (induction xs)
  case Nil
  show ?case by (simp add: js_sort_def)
next
  case (Cons x xs)
  have "js_sort cmp (x # xs) = insert_by cmp x (js_sort cmp xs)" by (simp add: js_sort_def)
  with Cons show ?case using sorted_wrt_insert_by [of cmp, OF assms] by simp
qed

lemma compare_scored_le:
  "compare_scored a b \<le> 0 \<longleftrightarrow>
     fst b < fst a \<or> (fst a = fst b \<and> snd (snd a) \<le> snd (snd b))"
  by (auto simp: compare_scored_def)

lemma sorted_scored: "sorted_wrt (\<lambda>a b. compare_scored a b \<le> 0) (js_sort compare_scored xs)"
  by (rule sorted_wrt_js_sort) (auto simp: compare_scored_le)

lemma faq_score_count:
  "faq_score lc tokens f = length (filter (\<lambda>t. sublist t (combined_text lc f)) tokens)"
proof -
  have "foldl (\<lambda>acc t. acc + (if P t then 1 else 0)) a ts = a + length (filter P ts)"
    for P :: "jsstring \<Rightarrow> bool" and a :: nat and ts
    by (induction ts arbitrary: a) simp_all
  then show ?thesis by (simp add: faq_score_def js_includes_def)
qed

lemma filter_dropWhile_ws:
  "filter (\<lambda>c. \<not> is_ws c) (dropWhile is_ws cs) = filter (\<lambda>c. \<not> is_ws c) cs"
  by (induction cs) simp_all

lemma split_ws_pieces:
  "\<forall>c\<in>set cur. \<not> is_ws c \<Longrightarrow>
   (\<forall>p\<in>set (split_ws cur s). \<forall>c\<in>set p. \<not> is_ws c)
   \<and> concat (split_ws cur s) = cur @ filter (\<lambda>c. \<not> is_ws c) s"
proof (induction cur s rule: split_ws.induct)
  case (1 cur)
  then show ?case by simp
next
  case (2 cur c cs)
  show ?case
  proof (cases "is_ws c")
    case True
    have ih: "(\<forall>p\<in>set (split_ws [] (dropWhile is_ws cs)). \<forall>c\<in>set p. \<not> is_ws c)
        \<and> concat (split_ws [] (dropWhile is_ws cs)) = [] @ filter (\<lambda>c. \<not> is_ws c) (dropWhile is_ws cs)"
      by (rule "2.IH"(1) [OF True]) simp
    have eq: "split_ws cur (c # cs) = cur # split_ws [] (dropWhile is_ws cs)"
      using True by simp
    show ?thesis
      unfolding eq using ih "2.prems" True by (simp add: filter_dropWhile_ws)
  next
    case False
    have ih: "(\<forall>p\<in>set (split_ws (cur @ [c]) cs). \<forall>c\<in>set p. \<not> is_ws c)
        \<and> concat (split_ws (cur @ [c]) cs) = (cur @ [c]) @ filter (\<lambda>c. \<not> is_ws c) cs"
      by (rule "2.IH"(2) [OF False]) (use "2.prems" False in auto)
    have eq: "split_ws cur (c # cs) = split_ws (cur @ [c]) cs"
      using False by simp
    show ?thesis
      unfolding eq using ih False by simp
  qed
qed

lemma trim_no_ws:
  assumes "\<forall>c\<in>set p. \<not> is_ws c"
  shows "trim p = p"
proof -
  have "dropWhile is_ws xs = xs" if "\<forall>c\<in>set xs. \<not> is_ws c" for xs
    using that by (cases xs) simp_all
  from this [of p] this [of "rev p"] assms show ?thesis by (simp add: trim_def)
qed

lemma query_tokens_spec:
  "(\<forall>t\<in>set (query_tokens lc q). t \<noteq> [] \<and> (\<forall>c\<in>set t. \<not> is_ws c))
   \<and> concat (query_tokens lc q) = filter (\<lambda>c. \<not> is_ws c) (lc q)"
proof -
  let ?ps = "split_ws [] (lc q)"
  have ps: "(\<forall>p\<in>set ?ps. \<forall>c\<in>set p. \<not> is_ws c)"
    "concat ?ps = filter (\<lambda>c. \<not> is_ws c) (lc q)"
    using split_ws_pieces [of "[]" "lc q"] by simp_all
  then have "map trim ?ps = ?ps" by (simp add: map_idI trim_no_ws)
  then have eq: "query_tokens lc q = filter (\<lambda>t. t \<noteq> []) ?ps" by (simp add: query_tokens_def)
  have "concat (filter (\<lambda>t. t \<noteq> []) xs) = concat xs" for xs :: "jsstring list"
    by (induction xs) simp_all
  with ps eq show ?thesis by auto
qed


lemma faq_score_Nil: "faq_score lc [] f = 0"
  by (simp add: faq_score_def)

lemma scored_entries:
  "filter (\<lambda>(score, f, index). score > 0)
     (map (\<lambda>(index, f). (faq_score lc tokens f, f, index)) (enumerate 0 faqs))
   = map (\<lambda>i. (faq_score lc tokens (faqs ! i), faqs ! i, i))
       (filter (\<lambda>i. 0 < faq_score lc tokens (faqs ! i)) [0..<length faqs])"
  by (simp add: map_enumerate_nth filter_map comp_def)

lemma select_fallback:
  assumes "faqs \<noteq> []"
    and "query = None \<or> query = Some [] \<or>
      (\<exists>q. query = Some q \<and> (query_tokens lc q = [] \<or>
             (\<forall>f\<in>set faqs. faq_score lc (query_tokens lc q) f = 0)))"
  shows "selectRelevantFaqs lc limit faqs query = slice0 limit faqs"
proof (cases "truthy query")
  case False
  with assms(1) show ?thesis by (simp add: selectRelevantFaqs_def)
next
  case True
  then obtain q where q: "query = Some q" "q \<noteq> []"
    by (cases query) (auto simp: truthy_def)
  with assms(2) have c: "query_tokens lc q = [] \<or>
      (\<forall>f\<in>set faqs. faq_score lc (query_tokens lc q) f = 0)" by auto
  show ?thesis
  proof (cases "query_tokens lc q = []")
    case True
    with assms(1) q show ?thesis by (simp add: selectRelevantFaqs_def truthy_def)
  next
    case False
    with c have "\<forall>f\<in>set faqs. faq_score lc (query_tokens lc q) f = 0" by simp
    then have "filter (\<lambda>i. 0 < faq_score lc (query_tokens lc q) (faqs ! i)) [0..<length faqs] = []"
      by (simp add: filter_empty_conv)
    with assms(1) q False show ?thesis
      by (simp add: selectRelevantFaqs_def truthy_def Let_def scored_entries)
  qed
qed

lemma select_scored:
  assumes "query = Some q" "q \<noteq> []" "\<exists>f\<in>set faqs. 0 < faq_score lc (query_tokens lc q) f"
  shows "selectRelevantFaqs lc limit faqs query =
     map (\<lambda>e. fst (snd e))
       (slice0 limit (js_sort compare_scored
          (map (\<lambda>i. (faq_score lc (query_tokens lc q) (faqs ! i), faqs ! i, i))
             (filter (\<lambda>i. 0 < faq_score lc (query_tokens lc q) (faqs ! i)) [0..<length faqs]))))"
proof -
  from assms(3) have ne: "faqs \<noteq> []" by auto
  from assms(3) have tok: "query_tokens lc q \<noteq> []" by (auto simp: faq_score_Nil)
  from assms(3) obtain i where "i < length faqs" "0 < faq_score lc (query_tokens lc q) (faqs ! i)"
    by (auto simp: in_set_conv_nth)
  then have pos: "filter (\<lambda>i. 0 < faq_score lc (query_tokens lc q) (faqs ! i)) [0..<length faqs] \<noteq> []"
    by (auto simp: filter_empty_conv)
  have "(\<lambda>(score, f, index). f) = (\<lambda>e :: nat \<times> faq \<times> nat. fst (snd e))"
    by (simp add: fun_eq_iff)
  with ne tok pos assms(1,2) show ?thesis
    by (simp add: selectRelevantFaqs_def truthy_def Let_def scored_entries)
qed

lemma sorted_wrt_distinct:
  "distinct xs \<Longrightarrow> sorted_wrt P xs \<Longrightarrow> sorted_wrt (\<lambda>a b. P a b \<and> a \<noteq> b) xs"
  by (induction xs) auto

lemma sorted_indices:
  fixes sc :: "nat \<Rightarrow> nat" and faqs :: "faq list"
  defines "E \<equiv> \<lambda>i. (sc i, faqs ! i, i)"
  defines "S \<equiv> js_sort compare_scored (map E (filter (\<lambda>i. 0 < sc i) [0..<length faqs]))"
  shows "S = map E (map (\<lambda>e. snd (snd e)) S)"
    and "distinct (map (\<lambda>e. snd (snd e)) S)"
    and "set (map (\<lambda>e. snd (snd e)) S) = {i. i < length faqs \<and> 0 < sc i}"
    and "sorted_wrt (\<lambda>i j. sc j < sc i \<or> (sc i = sc j \<and> i < j)) (map (\<lambda>e. snd (snd e)) S)"
proof -
  let ?pos = "filter (\<lambda>i. 0 < sc i) [0..<length faqs]"
  let ?idx = "\<lambda>e :: nat \<times> faq \<times> nat. snd (snd e)"
  have setS: "set S = E ` set ?pos" by (simp add: S_def set_js_sort)
  then have "\<forall>e\<in>set S. E (?idx e) = e" by (auto simp: E_def)
  then have "map (\<lambda>e. E (?idx e)) S = S" by (simp add: map_idI)
  then show eq: "S = map E (map ?idx S)" by (simp add: comp_def)
  have "map ?idx (map E ?pos) = ?pos" by (simp add: E_def comp_def)
  then have "distinct (map ?idx (map E ?pos))" by simp
  then show dist: "distinct (map ?idx S)"
    unfolding S_def by (simp only: distinct_map_js_sort)
  have "?idx ` E ` set ?pos = set ?pos" by (auto simp: E_def image_iff)
  then show "set (map ?idx S) = {i. i < length faqs \<and> 0 < sc i}"
    using setS by auto
  have "sorted_wrt (\<lambda>a b. compare_scored a b \<le> 0) S"
    unfolding S_def by (rule sorted_scored)
  then have "sorted_wrt (\<lambda>a b. compare_scored a b \<le> 0) (map E (map ?idx S))"
    using eq by simp
  then have "sorted_wrt (\<lambda>i j. compare_scored (E i) (E j) \<le> 0) (map ?idx S)"
    by (simp only: sorted_wrt_map)
  then have "sorted_wrt (\<lambda>i j. compare_scored (E i) (E j) \<le> 0 \<and> i \<noteq> j) (map ?idx S)"
    using dist by (rule sorted_wrt_distinct [rotated])
  then show "sorted_wrt (\<lambda>i j. sc j < sc i \<or> (sc i = sc j \<and> i < j)) (map ?idx S)"
    by (rule sorted_wrt_mono_rel [rotated]) (auto simp: compare_scored_le E_def)
qed

lemma split_ws_nonempty_pieces:
  "filter (\<lambda>t. t \<noteq> []) (split_ws cur s) =
     (if cur @ takeWhile (\<lambda>c. \<not> is_ws c) s = [] then []
      else [cur @ takeWhile (\<lambda>c. \<not> is_ws c) s])
     @ filter (\<lambda>t. t \<noteq> [])
         (split_ws [] (dropWhile is_ws (dropWhile (\<lambda>c. \<not> is_ws c) s)))"
proof (induction cur s rule: split_ws.induct)
  case (1 cur)
  show ?case by simp
next
  case (2 cur c cs)
  show ?case
  proof (cases "is_ws c")
    case True
    then show ?thesis by simp
  next
    case False
    have eq: "split_ws cur (c # cs) = split_ws (cur @ [c]) cs"
      using False by simp
    show ?thesis
      unfolding eq using "2.IH"(2) [OF False] False by simp
  qed
qed

lemma query_tokens_pieces:
  "query_tokens lc q = filter (\<lambda>t. t \<noteq> []) (split_ws [] (lc q))"
proof -
  have "\<forall>p\<in>set (split_ws [] (lc q)). \<forall>c\<in>set p. \<not> is_ws c"
    using split_ws_pieces [of "[]" "lc q"] by simp
  then have "map trim (split_ws [] (lc q)) = split_ws [] (lc q)"
    by (simp add: map_idI trim_no_ws)
  then show ?thesis by (simp add: query_tokens_def)
qed

lemma query_tokens_skip_ws:
  "query_tokens (\<lambda>s. s) (dropWhile is_ws t) = query_tokens (\<lambda>s. s) t"
proof (cases t)
  case Nil
  then show ?thesis by simp
next
  case (Cons c cs)
  show ?thesis
  proof (cases "is_ws c")
    case True
    then have "takeWhile (\<lambda>c. \<not> is_ws c) t = []" "dropWhile (\<lambda>c. \<not> is_ws c) t = t"
      using Cons by simp_all
    then show ?thesis
      using split_ws_nonempty_pieces [of "[]" t] by (simp add: query_tokens_pieces)
  next
    case False
    then show ?thesis using Cons by simp
  qed
qed

lemma query_tokens_rec:
  "query_tokens (\<lambda>s. s) s =
     (let s' = dropWhile is_ws s
      in if s' = [] then []
         else takeWhile (\<lambda>c. \<not> is_ws c) s'
              # query_tokens (\<lambda>s. s) (dropWhile (\<lambda>c. \<not> is_ws c) s'))"
proof -
  let ?s' = "dropWhile is_ws s"
  have skip: "query_tokens (\<lambda>s. s) s = query_tokens (\<lambda>s. s) ?s'"
    by (rule query_tokens_skip_ws [symmetric])
  show ?thesis
  proof (cases "?s' = []")
    case True
    have nil: "query_tokens (\<lambda>s. s) [] = []" by (simp add: query_tokens_pieces)
    have "query_tokens (\<lambda>s. s) s = []" using skip unfolding True nil .
    then show ?thesis unfolding Let_def True by simp
  next
    case False
    then have "\<not> is_ws (hd ?s')" by (rule hd_dropWhile)
    with False have ne: "takeWhile (\<lambda>c. \<not> is_ws c) ?s' \<noteq> []"
      by (cases ?s') auto
    have "query_tokens (\<lambda>s. s) ?s' =
        takeWhile (\<lambda>c. \<not> is_ws c) ?s'
        # query_tokens (\<lambda>s. s) (dropWhile is_ws (dropWhile (\<lambda>c. \<not> is_ws c) ?s'))"
      using split_ws_nonempty_pieces [of "[]" ?s'] ne by (simp add: query_tokens_pieces)
    also have "query_tokens (\<lambda>s. s) (dropWhile is_ws (dropWhile (\<lambda>c. \<not> is_ws c) ?s'))
        = query_tokens (\<lambda>s. s) (dropWhile (\<lambda>c. \<not> is_ws c) ?s')"
      by (rule query_tokens_skip_ws)
    finally show ?thesis using False skip by (simp only: Let_def if_False)
  qed
qed

lemma query_tokens_lc: "query_tokens lc q = query_tokens (\<lambda>s. s) (lc q)"
  by (simp add: query_tokens_pieces)

lemma combined_text_explicit:
  "combined_text lc f =
     lc (case question f of Some x \<Rightarrow> x | None \<Rightarrow>
           (case questionEnglish f of Some x \<Rightarrow> x | None \<Rightarrow>
              (case title f of Some x \<Rightarrow> x | None \<Rightarrow> [])))
     @ [32] @
     lc (case answer f of Some x \<Rightarrow> x | None \<Rightarrow>
           (case answerEnglish f of Some x \<Rightarrow> x | None \<Rightarrow>
              (case response f of Some x \<Rightarrow> x | None \<Rightarrow> [])))
     @ [32] @
     lc (case questionHindi f of Some x \<Rightarrow> x | None \<Rightarrow> [])
     @ [32] @
     lc (case answerHindi f of Some x \<Rightarrow> x | None \<Rightarrow> [])"
  by (simp add: combined_text_def lit_def nullish_def nullish_or_def split: option.splits)

text \<open>
  C6, as stated, fails: the result limit is \<open>Number(FAQ_MAX_RESULTS) || 5\<close>, which keeps
  a negative setting, and \<open>slice(0, limit)\<close> then counts from the end. With the setting
  \<open>-1\<close> and a single FAQ the result is empty, for a matching query as well as for a
  missing one.
\<close>

theorem C6_negative_limit_counterexample:
  "DEFAULT_LIMIT (Some (- 1)) = - 1
   \<and> [empty_obj\<lparr>question := Some (lit ''reset password'')\<rparr>] \<noteq> []
   \<and> selectRelevantFaqs ascii_toLowerCase (DEFAULT_LIMIT (Some (- 1)))
       [empty_obj\<lparr>question := Some (lit ''reset password'')\<rparr>] (Some (lit ''password''))
     = []
   \<and> selectRelevantFaqs ascii_toLowerCase (DEFAULT_LIMIT (Some (- 1)))
       [empty_obj\<lparr>question := Some (lit ''reset password'')\<rparr>] None
     = []"
  by (simp add: selectRelevantFaqs_def DEFAULT_LIMIT_def number_or_def truthy_def
      query_tokens_def ascii_toLowerCase_def lit_def is_ws_def trim_def
      faq_score_def js_includes_def combined_text_def nullish_def nullish_or_def
      empty_obj_def sublist_code prefix_code js_sort_def compare_scored_def slice0_def
      enumerate_eq_zip Let_def)

text \<open>
  C6, amended. For every non-empty FAQ list and a result limit of at least 1,
  \<open>selectRelevantFaqs\<close> returns a non-empty sequence of at most \<open>limit\<close> FAQs. The query
  tokens are the maximal white-space-free runs of the lower-cased query, in order. The
  score of an FAQ is the number of tokens that are substrings of the text made of its
  lower-cased question (the first present of \<open>question\<close>, \<open>questionEnglish\<close>, \<open>title\<close>),
  answer (the first present of \<open>answer\<close>, \<open>answerEnglish\<close>, \<open>response\<close>),
  \<open>questionHindi\<close> and \<open>answerHindi\<close>, joined by single spaces. If the query is not a
  string or is empty, has no token, or no FAQ scores positively, the result is the
  first \<open>limit\<close> FAQs in source order. Otherwise it is the first \<open>limit\<close> of the FAQs with
  a positive score (each once), ordered by descending score and, among equal scores, by
  original position.
\<close>

theorem C6_selectRelevantFaqs:
  assumes "faqs \<noteq> []" and "1 \<le> limit"
  shows "selectRelevantFaqs lc limit faqs query \<noteq> []
    \<and> int (length (selectRelevantFaqs lc limit faqs query)) \<le> limit
    \<and> (\<forall>q. query_tokens lc q = query_tokens (\<lambda>s. s) (lc q))
    \<and> (\<forall>s. query_tokens (\<lambda>s. s) s =
           (let s' = dropWhile is_ws s
            in if s' = [] then []
               else takeWhile (\<lambda>c. \<not> is_ws c) s'
                    # query_tokens (\<lambda>s. s) (dropWhile (\<lambda>c. \<not> is_ws c) s')))
    \<and> (\<forall>q. (\<forall>t\<in>set (query_tokens lc q). t \<noteq> [] \<and> (\<forall>c\<in>set t. \<not> is_ws c))
           \<and> concat (query_tokens lc q) = filter (\<lambda>c. \<not> is_ws c) (lc q))
    \<and> (\<forall>tokens f. faq_score lc tokens f
           = length (filter (\<lambda>t. sublist t
               (lc (case question f of Some x \<Rightarrow> x | None \<Rightarrow>
                      (case questionEnglish f of Some x \<Rightarrow> x | None \<Rightarrow>
                         (case title f of Some x \<Rightarrow> x | None \<Rightarrow> [])))
                @ [32] @
                lc (case answer f of Some x \<Rightarrow> x | None \<Rightarrow>
                      (case answerEnglish f of Some x \<Rightarrow> x | None \<Rightarrow>
                         (case response f of Some x \<Rightarrow> x | None \<Rightarrow> [])))
                @ [32] @
                lc (case questionHindi f of Some x \<Rightarrow> x | None \<Rightarrow> [])
                @ [32] @
                lc (case answerHindi f of Some x \<Rightarrow> x | None \<Rightarrow> []))) tokens))
    \<and> (query = None \<or> query = Some [] \<or>
         (\<exists>q. query = Some q \<and> (query_tokens lc q = [] \<or>
                (\<forall>f\<in>set faqs. faq_score lc (query_tokens lc q) f = 0))) \<longrightarrow>
        selectRelevantFaqs lc limit faqs query = take (nat limit) faqs)
    \<and> (\<forall>q. query = Some q \<and> q \<noteq> [] \<and> (\<exists>f\<in>set faqs. 0 < faq_score lc (query_tokens lc q) f) \<longrightarrow>
        (\<exists>idxs.
           selectRelevantFaqs lc limit faqs query = map (\<lambda>i. faqs ! i) (take (nat limit) idxs)
           \<and> distinct idxs
           \<and> set idxs = {i. i < length faqs \<and> 0 < faq_score lc (query_tokens lc q) (faqs ! i)}
           \<and> sorted_wrt (\<lambda>i j.
                 faq_score lc (query_tokens lc q) (faqs ! j) < faq_score lc (query_tokens lc q) (faqs ! i)
                 \<or> (faq_score lc (query_tokens lc q) (faqs ! i) = faq_score lc (query_tokens lc q) (faqs ! j)
                    \<and> i < j)) idxs))"
proof -
  let ?res = "selectRelevantFaqs lc limit faqs query"
  have lim: "0 \<le> limit" "0 < nat limit" using assms(2) by simp_all
  have fallback: "?res = take (nat limit) faqs"
    if "query = None \<or> query = Some [] \<or>
         (\<exists>q. query = Some q \<and> (query_tokens lc q = [] \<or>
                (\<forall>f\<in>set faqs. faq_score lc (query_tokens lc q) f = 0)))"
    using select_fallback [OF assms(1) that, of limit] lim(1) by (simp add: slice0_nonneg)
  have scored: "\<exists>idxs.
           ?res = map (\<lambda>i. faqs ! i) (take (nat limit) idxs)
           \<and> distinct idxs
           \<and> set idxs = {i. i < length faqs \<and> 0 < faq_score lc (query_tokens lc q) (faqs ! i)}
           \<and> sorted_wrt (\<lambda>i j.
                 faq_score lc (query_tokens lc q) (faqs ! j) < faq_score lc (query_tokens lc q) (faqs ! i)
                 \<or> (faq_score lc (query_tokens lc q) (faqs ! i) = faq_score lc (query_tokens lc q) (faqs ! j)
                    \<and> i < j)) idxs"
    if q: "query = Some q" "q \<noteq> []" "\<exists>f\<in>set faqs. 0 < faq_score lc (query_tokens lc q) f" for q
  proof -
    let ?sc = "\<lambda>i. faq_score lc (query_tokens lc q) (faqs ! i)"
    let ?E = "\<lambda>i. (?sc i, faqs ! i, i)"
    let ?S = "js_sort compare_scored (map ?E (filter (\<lambda>i. 0 < ?sc i) [0..<length faqs]))"
    let ?idxs = "map (\<lambda>e. snd (snd e)) ?S"
    note si = sorted_indices [of ?sc faqs]
    have "?res = map (\<lambda>e. fst (snd e)) (take (nat limit) ?S)"
      using select_scored [OF q, of limit] lim(1) by (simp add: slice0_nonneg)
    also have "\<dots> = map (\<lambda>e. fst (snd e)) (take (nat limit) (map ?E ?idxs))"
      using si(1) by simp
    also have "\<dots> = map (\<lambda>i. faqs ! i) (take (nat limit) ?idxs)"
      by (simp add: take_map comp_def)
    finally have "?res = map (\<lambda>i. faqs ! i) (take (nat limit) ?idxs)" .
    with si(2-4) show ?thesis by blast
  qed
  have nonempty: "?res \<noteq> [] \<and> int (length ?res) \<le> limit"
  proof (cases "query = None \<or> query = Some [] \<or>
         (\<exists>q. query = Some q \<and> (query_tokens lc q = [] \<or>
                (\<forall>f\<in>set faqs. faq_score lc (query_tokens lc q) f = 0)))")
    case True
    have "length ?res = min (length faqs) (nat limit)"
      by (simp add: fallback [OF True])
    moreover have "0 < length faqs" using assms(1) by simp
    ultimately have "0 < length ?res" "length ?res \<le> nat limit"
      using lim(2) by simp_all
    then show ?thesis using lim(1) by auto
  next
    case False
    then obtain q where q: "query = Some q" "q \<noteq> []"
      "\<exists>f\<in>set faqs. 0 < faq_score lc (query_tokens lc q) f"
      by (cases query) auto
    from scored [OF q] obtain idxs where idxs:
      "?res = map (\<lambda>i. faqs ! i) (take (nat limit) idxs)"
      "set idxs = {i. i < length faqs \<and> 0 < faq_score lc (query_tokens lc q) (faqs ! i)}"
      by blast
    from q(3) obtain i where "i < length faqs"
      "0 < faq_score lc (query_tokens lc q) (faqs ! i)"
      by (auto simp: in_set_conv_nth)
    then have "i \<in> set idxs" by (simp add: idxs(2))
    then have "0 < length idxs" by (cases idxs) simp_all
    moreover have "length ?res = min (length idxs) (nat limit)"
      by (simp add: idxs(1))
    ultimately have "0 < length ?res" "length ?res \<le> nat limit"
      using lim(2) by simp_all
    then show ?thesis using lim(1) by auto
  qed
  have c1: "?res \<noteq> []" and c2: "int (length ?res) \<le> limit"
    using nonempty by simp_all
  have c3: "\<forall>q. query_tokens lc q = query_tokens (\<lambda>s. s) (lc q)"
    using query_tokens_lc [of lc] by simp
  have c4: "\<forall>s. query_tokens (\<lambda>s. s) s =
           (let s' = dropWhile is_ws s
            in if s' = [] then []
               else takeWhile (\<lambda>c. \<not> is_ws c) s'
                    # query_tokens (\<lambda>s. s) (dropWhile (\<lambda>c. \<not> is_ws c) s'))"
    by (intro allI) (rule query_tokens_rec)
  have c5: "\<forall>q. (\<forall>t\<in>set (query_tokens lc q). t \<noteq> [] \<and> (\<forall>c\<in>set t. \<not> is_ws c))
           \<and> concat (query_tokens lc q) = filter (\<lambda>c. \<not> is_ws c) (lc q)"
    by (intro allI) (rule query_tokens_spec)
  have c6: "\<forall>tokens f. faq_score lc tokens f
           = length (filter (\<lambda>t. sublist t
               (lc (case question f of Some x \<Rightarrow> x | None \<Rightarrow>
                      (case questionEnglish f of Some x \<Rightarrow> x | None \<Rightarrow>
                         (case title f of Some x \<Rightarrow> x | None \<Rightarrow> [])))
                @ [32] @
                lc (case answer f of Some x \<Rightarrow> x | None \<Rightarrow>
                      (case answerEnglish f of Some x \<Rightarrow> x | None \<Rightarrow>
                         (case response f of Some x \<Rightarrow> x | None \<Rightarrow> [])))
                @ [32] @
                lc (case questionHindi f of Some x \<Rightarrow> x | None \<Rightarrow> [])
                @ [32] @
                lc (case answerHindi f of Some x \<Rightarrow> x | None \<Rightarrow> []))) tokens)"
    by (intro allI) (simp only: faq_score_count combined_text_explicit)
  have c7: "query = None \<or> query = Some [] \<or>
         (\<exists>q. query = Some q \<and> (query_tokens lc q = [] \<or>
                (\<forall>f\<in>set faqs. faq_score lc (query_tokens lc q) f = 0))) \<longrightarrow>
        ?res = take (nat limit) faqs"
    using fallback by (intro impI)
  have c8: "\<forall>q. query = Some q \<and> q \<noteq> [] \<and> (\<exists>f\<in>set faqs. 0 < faq_score lc (query_tokens lc q) f) \<longrightarrow>
        (\<exists>idxs.
           ?res = map (\<lambda>i. faqs ! i) (take (nat limit) idxs)
           \<and> distinct idxs
           \<and> set idxs = {i. i < length faqs \<and> 0 < faq_score lc (query_tokens lc q) (faqs ! i)}
           \<and> sorted_wrt (\<lambda>i j.
                 faq_score lc (query_tokens lc q) (faqs ! j) < faq_score lc (query_tokens lc q) (faqs ! i)
                 \<or> (faq_score lc (query_tokens lc q) (faqs ! i) = faq_score lc (query_tokens lc q) (faqs ! j)
                    \<and> i < j)) idxs)"
  proof (intro allI impI)
    fix q
    assume "query = Some q \<and> q \<noteq> [] \<and> (\<exists>f\<in>set faqs. 0 < faq_score lc (query_tokens lc q) f)"
    then have "query = Some q" "q \<noteq> []" "\<exists>f\<in>set faqs. 0 < faq_score lc (query_tokens lc q) f"
      by simp_all
    then show "\<exists>idxs.
           ?res = map (\<lambda>i. faqs ! i) (take (nat limit) idxs)
           \<and> distinct idxs
           \<and> set idxs = {i. i < length faqs \<and> 0 < faq_score lc (query_tokens lc q) (faqs ! i)}
           \<and> sorted_wrt (\<lambda>i j.
                 faq_score lc (query_tokens lc q) (faqs ! j) < faq_score lc (query_tokens lc q) (faqs ! i)
                 \<or> (faq_score lc (query_tokens lc q) (faqs ! i) = faq_score lc (query_tokens lc q) (faqs ! j)
                    \<and> i < j)) idxs"
      by (rule scored)
  qed
  show ?thesis by (intro conjI c1 c2 c3 c4 c5 c6 c7 c8)
qed

theorem C6_selectRelevantFaqs_witness:
  "[empty_obj\<lparr>question := Some (lit ''change email'')\<rparr>,
    empty_obj\<lparr>title := Some (lit ''Password Rules''), answerHindi := Some (lit ''RESET'')\<rparr>,
    empty_obj\<lparr>questionEnglish := Some (lit ''reset password'')\<rparr>] \<noteq> []
   \<and> 1 \<le> DEFAULT_LIMIT None
   \<and> selectRelevantFaqs ascii_toLowerCase (DEFAULT_LIMIT None)
       [empty_obj\<lparr>question := Some (lit ''change email'')\<rparr>,
        empty_obj\<lparr>title := Some (lit ''Password Rules''), answerHindi := Some (lit ''RESET'')\<rparr>,
        empty_obj\<lparr>questionEnglish := Some (lit ''reset password'')\<rparr>]
       (Some (lit ''reset  PASSWORD help''))
     = [empty_obj\<lparr>title := Some (lit ''Password Rules''), answerHindi := Some (lit ''RESET'')\<rparr>,
        empty_obj\<lparr>questionEnglish := Some (lit ''reset password'')\<rparr>]
   \<and> int (length (selectRelevantFaqs ascii_toLowerCase (DEFAULT_LIMIT None)
       [empty_obj\<lparr>question := Some (lit ''change email'')\<rparr>,
        empty_obj\<lparr>title := Some (lit ''Password Rules''), answerHindi := Some (lit ''RESET'')\<rparr>,
        empty_obj\<lparr>questionEnglish := Some (lit ''reset password'')\<rparr>]
       (Some (lit ''reset  PASSWORD help'')))) \<le> DEFAULT_LIMIT None
   \<and> query_tokens ascii_toLowerCase (lit ''reset  PASSWORD help'')
     = [lit ''reset'', lit ''password'', lit ''help'']
   \<and> faq_score ascii_toLowerCase [lit ''reset'', lit ''password'', lit ''help'']
       (empty_obj\<lparr>title := Some (lit ''Password Rules''), answerHindi := Some (lit ''RESET'')\<rparr>)
     = 2"
proof -
  let ?B = "empty_obj\<lparr>title := Some (lit ''Password Rules''), answerHindi := Some (lit ''RESET'')\<rparr>"
  let ?faqs = "[empty_obj\<lparr>question := Some (lit ''change email'')\<rparr>, ?B,
    empty_obj\<lparr>questionEnglish := Some (lit ''reset password'')\<rparr>]"
  let ?q = "Some (lit ''reset  PASSWORD help'')"
  have ne: "?faqs \<noteq> []" by simp
  have lim: "1 \<le> DEFAULT_LIMIT None" by (simp add: DEFAULT_LIMIT_def number_or_def)
  note inst = C6_selectRelevantFaqs [OF ne lim, where lc = ascii_toLowerCase and query = ?q]
  have run: "selectRelevantFaqs ascii_toLowerCase (DEFAULT_LIMIT None) ?faqs ?q
      = [?B, empty_obj\<lparr>questionEnglish := Some (lit ''reset password'')\<rparr>]"
    by (simp add: selectRelevantFaqs_def DEFAULT_LIMIT_def number_or_def truthy_def
        query_tokens_def ascii_toLowerCase_def lit_def is_ws_def trim_def
        faq_score_def js_includes_def combined_text_def nullish_def nullish_or_def
        empty_obj_def sublist_code prefix_code js_sort_def compare_scored_def slice0_def
        enumerate_eq_zip Let_def)
  have len: "int (length (selectRelevantFaqs ascii_toLowerCase (DEFAULT_LIMIT None) ?faqs ?q))
      \<le> DEFAULT_LIMIT None"
    using inst [THEN conjunct2, THEN conjunct1] .
  have toks: "query_tokens ascii_toLowerCase (lit ''reset  PASSWORD help'')
      = [lit ''reset'', lit ''password'', lit ''help'']"
    by (simp add: query_tokens_def ascii_toLowerCase_def lit_def is_ws_def trim_def)
  have sc: "faq_score ascii_toLowerCase [lit ''reset'', lit ''password'', lit ''help''] ?B = 2"
    using inst [THEN conjunct2, THEN conjunct2, THEN conjunct2, THEN conjunct2, THEN conjunct2,
        THEN conjunct1, rule_format, of "[lit ''reset'', lit ''password'', lit ''help'']" ?B]
    by (simp add: ascii_toLowerCase_def lit_def empty_obj_def sublist_code prefix_code)
  from ne lim run len toks sc show ?thesis by (intro conjI)
qed

end
